theory Spec2Isabelle
  imports Complex_Main "HOL-Library.Log_Nat"
begin

section \<open>Data model (types.ts)\<close>

text \<open>
  JavaScript numbers are modelled as reals. The infinities and NaN are not represented.
  Rounding is represented where a result depends on it, in the arithmetic of
  \<open>getPolygonCentroid\<close>; elsewhere the operations are the exact ones. Array indices and
  the history index are natural numbers. Strings are \<open>string\<close>. An optional field
  (\<open>width?\<close>, \<open>tail?\<close>, \<open>pose?\<close>) is an \<open>option\<close>.
\<close>

record point =
  px :: real
  py :: real

datatype bubbleType = Rounded | Oval | Rect

datatype presetType = Full | Upper | Lower | Face

text \<open>
  \<open>SkeletonData\<close> is an object from joint names to points. It is kept as an association
  list, in the key order that \<open>for ... in\<close> and \<open>Object.entries\<close> enumerate.
\<close>

type_synonym SkeletonData = "(string \<times> point) list"

datatype pose =
    SkeletonPose presetType SkeletonData string
  | ImagePose string
  | DrawingPose "point list list"

text \<open>
  The variants of \<open>CanvasShape\<close>, each with the fields its interface adds to \<open>Shape\<close>:
  Panel (points), Text (text, fontSize), Bubble (bubbleType, text, tail), Drawing (points,
  strokeColor, strokeWidth), Image (href, characterId, panelIndex, pose), Arrow (points,
  strokeColor, strokeWidth).
\<close>

datatype shapeKind =
    Panel "point list"
  | Text string real
  | Bubble bubbleType string "point option"
  | Drawing "point list list" string real
  | Image string string int "pose option"
  | Arrow "point list" string real

record shape =
  sid :: string
  sx :: real
  sy :: real
  width :: "real option"
  height :: "real option"
  kind :: shapeKind

definition isPanel :: "shape \<Rightarrow> bool" where
  "isPanel s = (case kind s of Panel _ \<Rightarrow> True | _ \<Rightarrow> False)"

definition isText :: "shape \<Rightarrow> bool" where
  "isText s = (case kind s of Text _ _ \<Rightarrow> True | _ \<Rightarrow> False)"

definition isBubble :: "shape \<Rightarrow> bool" where
  "isBubble s = (case kind s of Bubble _ _ _ \<Rightarrow> True | _ \<Rightarrow> False)"

definition isDrawing :: "shape \<Rightarrow> bool" where
  "isDrawing s = (case kind s of Drawing _ _ _ \<Rightarrow> True | _ \<Rightarrow> False)"

definition isImage :: "shape \<Rightarrow> bool" where
  "isImage s = (case kind s of Image _ _ _ _ \<Rightarrow> True | _ \<Rightarrow> False)"

definition isArrow :: "shape \<Rightarrow> bool" where
  "isArrow s = (case kind s of Arrow _ _ _ \<Rightarrow> True | _ \<Rightarrow> False)"

record ViewTransform =
  scale :: real
  vx :: real
  vy :: real

text \<open>
  The fields of \<open>Page\<close> that the shape handlers read or write. The other fields (images,
  aspect ratio, view transform, proposal settings) are carried along unchanged by them.
\<close>

record page =
  pid :: string
  shapes :: "shape list"
  shapesHistory :: "shape list list"
  shapesHistoryIndex :: nat
  sceneDescription :: string

definition initialPage :: "string \<Rightarrow> page" where
  "initialPage i =
     \<lparr>pid = i, shapes = [], shapesHistory = [[]], shapesHistoryIndex = 0,
      sceneDescription = ''''\<rparr>"

section \<open>Scene graph and history (App.tsx)\<close>

text \<open>
  \<open>handleShapesChange\<close>, the function mapped over the pages. The regular-expression
  rebuild of the script for a positive panel count is the parameter \<open>rebuild\<close>; it writes
  \<open>sceneDescription\<close> only.

  With \<open>recordHistory\<close> the history is \<open>slice(0, index + 1)\<close> followed by the new list; without
  it the entry at the index is overwritten. Every page built from \<open>initialPage\<close> by the
  handlers keeps its index inside the history (\<open>page_ok\<close>), so the overwrite is a list update;
  an index past the end, where JavaScript would grow the array, does not occur.
\<close>

definition handleShapesChange ::
  "(nat \<Rightarrow> string \<Rightarrow> string) \<Rightarrow> string \<Rightarrow> shape list \<Rightarrow> bool \<Rightarrow> page \<Rightarrow> page" where
  "handleShapesChange rebuild currentPageId newShapes recordHistory p =
     (if pid p \<noteq> currentPageId then p
      else
        let newPanelCount = length (filter isPanel newShapes);
            oldPanelCount = length (filter isPanel (shapes p));
            updatedSceneDescription =
              (if newPanelCount \<noteq> oldPanelCount
               then (if newPanelCount > 0 then rebuild newPanelCount (sceneDescription p)
                     else '''')
               else sceneDescription p)
        in if recordHistory then
             let newHistory = take (shapesHistoryIndex p + 1) (shapesHistory p) @ [newShapes]
             in p\<lparr>shapes := newShapes,
                  shapesHistory := newHistory,
                  shapesHistoryIndex := length newHistory - 1,
                  sceneDescription := updatedSceneDescription\<rparr>
           else
             let newHistory = (shapesHistory p)[shapesHistoryIndex p := newShapes]
             in p\<lparr>shapes := newShapes,
                  shapesHistory := newHistory,
                  sceneDescription := updatedSceneDescription\<rparr>)"

definition handleUndo :: "string \<Rightarrow> page \<Rightarrow> page" where
  "handleUndo currentPageId p =
     (if pid p \<noteq> currentPageId \<or> shapesHistoryIndex p \<le> 0 then p
      else
        let newIndex = shapesHistoryIndex p - 1
        in p\<lparr>shapes := shapesHistory p ! newIndex, shapesHistoryIndex := newIndex\<rparr>)"

definition handleRedo :: "string \<Rightarrow> page \<Rightarrow> page" where
  "handleRedo currentPageId p =
     (if pid p \<noteq> currentPageId \<or> shapesHistoryIndex p \<ge> length (shapesHistory p) - 1 then p
      else
        let newIndex = shapesHistoryIndex p + 1
        in p\<lparr>shapes := shapesHistory p ! newIndex, shapesHistoryIndex := newIndex\<rparr>)"

text \<open>The handlers themselves map the function over all pages (\<open>setPages\<close>).\<close>

definition setPages_ShapesChange ::
  "(nat \<Rightarrow> string \<Rightarrow> string) \<Rightarrow> string \<Rightarrow> shape list \<Rightarrow> bool \<Rightarrow> page list \<Rightarrow> page list" where
  "setPages_ShapesChange rebuild currentPageId newShapes recordHistory prevPages =
     map (handleShapesChange rebuild currentPageId newShapes recordHistory) prevPages"

definition setPages_Undo :: "string \<Rightarrow> page list \<Rightarrow> page list" where
  "setPages_Undo currentPageId prevPages = map (handleUndo currentPageId) prevPages"

definition setPages_Redo :: "string \<Rightarrow> page list \<Rightarrow> page list" where
  "setPages_Redo currentPageId prevPages = map (handleRedo currentPageId) prevPages"

text \<open>The index of a page points into its history.\<close>

definition page_ok :: "page \<Rightarrow> bool" where
  "page_ok p = (shapesHistoryIndex p < length (shapesHistory p))"

text \<open>A run of commits, and a run of in-place updates, on one page.\<close>

definition commits :: "(nat \<Rightarrow> string \<Rightarrow> string) \<Rightarrow> string \<Rightarrow> shape list list \<Rightarrow> page \<Rightarrow> page" where
  "commits rebuild cur cs p = foldl (\<lambda>q c. handleShapesChange rebuild cur c True q) p cs"

definition updatesInPlace :: "(nat \<Rightarrow> string \<Rightarrow> string) \<Rightarrow> string \<Rightarrow> shape list list \<Rightarrow> page \<Rightarrow> page" where
  "updatesInPlace rebuild cur us p = foldl (\<lambda>q u. handleShapesChange rebuild cur u False q) p us"

section \<open>Geometry kernel (PanelEditor.tsx)\<close>

text \<open>
  \<open>Math.min(...xs)\<close> and \<open>Math.max(...xs)\<close>. On no arguments JavaScript returns the
  infinities, which the reals do not have: the two functions are left unspecified there,
  and nothing is proved about them on the empty list.
\<close>

fun Math_min :: "real list \<Rightarrow> real" where
  "Math_min (v # vs) = foldl min v vs"

fun Math_max :: "real list \<Rightarrow> real" where
  "Math_max (v # vs) = foldl max v vs"

record bbox =
  bbx :: real
  bby :: real
  bbw :: real
  bbh :: real

text \<open>\<open>shape.width || 0\<close>: an absent width reads as 0.\<close>

definition orZero :: "real option \<Rightarrow> real" where
  "orZero v = (case v of Some r \<Rightarrow> r | None \<Rightarrow> 0)"

definition pointsBBox :: "shape \<Rightarrow> point list \<Rightarrow> bbox" where
  "pointsBBox s points =
     (if length points = 0 then \<lparr>bbx = sx s, bby = sy s, bbw = 0, bbh = 0\<rparr>
      else
        let xs = map px points; ys = map py points;
            minX = Math_min xs; minY = Math_min ys
        in \<lparr>bbx = minX, bby = minY, bbw = Math_max xs - minX, bbh = Math_max ys - minY\<rparr>)"

definition getShapeBBox :: "shape \<Rightarrow> bbox" where
  "getShapeBBox s =
     (case kind s of
        Panel points \<Rightarrow> pointsBBox s points
      | Arrow points _ _ \<Rightarrow> pointsBBox s points
      | Drawing strokes _ _ \<Rightarrow>
          (if length strokes = 0 \<or> length (hd strokes) = 0
           then \<lparr>bbx = sx s, bby = sy s, bbw = 0, bbh = 0\<rparr>
           else
             let allPoints = concat strokes;
                 xs = map px allPoints; ys = map py allPoints;
                 minX = Math_min xs; minY = Math_min ys
             in \<lparr>bbx = minX, bby = minY, bbw = Math_max xs - minX, bbh = Math_max ys - minY\<rparr>)
      | _ \<Rightarrow> \<lparr>bbx = sx s, bby = sy s, bbw = orZero (width s), bbh = orZero (height s)\<rparr>)"

text \<open>
  The arithmetic of \<open>getPolygonCentroid\<close> is double-precision: every operation returns
  the double nearest to the exact result, ties going to the even significand. A double
  is \<open>m * 2 ^ e\<close> with a significand \<open>m\<close> of at most 53 bits. The exponent is not bounded
  here, so overflow and subnormal numbers are not represented. \<open>expo x\<close> is the exponent
  of the leading bit of \<open>x\<close>, and \<open>rd x\<close> the double nearest to \<open>x\<close>.
\<close>

definition roundEven :: "real \<Rightarrow> int" where
  "roundEven y =
     (let f = \<lfloor>y\<rfloor>; d = y - of_int f
      in if d < 1 / 2 then f else if 1 / 2 < d then f + 1 else if even f then f else f + 1)"

definition expo :: "real \<Rightarrow> int" where
  "expo x = (if 1 \<le> \<bar>x\<bar> then bitlen \<lfloor>\<bar>x\<bar>\<rfloor> - 1 else - bitlen (\<lceil>1 / \<bar>x\<bar>\<rceil> - 1))"

definition rd :: "real \<Rightarrow> real" where
  "rd x =
     (if x = 0 then 0
      else of_int (roundEven (x * 2 powi (52 - expo x))) * 2 powi (expo x - 52))"

text \<open>The operators \<open>+\<close>, \<open>-\<close>, \<open>*\<close> and \<open>/\<close> on doubles.\<close>

definition addD :: "real \<Rightarrow> real \<Rightarrow> real" where
  "addD a b = rd (a + b)"

definition subD :: "real \<Rightarrow> real \<Rightarrow> real" where
  "subD a b = rd (a - b)"

definition mulD :: "real \<Rightarrow> real \<Rightarrow> real" where
  "mulD a b = rd (a * b)"

definition divD :: "real \<Rightarrow> real \<Rightarrow> real" where
  "divD a b = rd (a / b)"

text \<open>The inner function \<open>getBBoxCenter\<close> of \<open>getPolygonCentroid\<close>.\<close>

definition getBBoxCenter :: "point list \<Rightarrow> point" where
  "getBBoxCenter points =
     (if length points = 0 then \<lparr>px = 0, py = 0\<rparr>
      else
        let xs = map px points; ys = map py points;
            minX = Math_min xs; minY = Math_min ys
        in \<lparr>px = addD minX (divD (subD (Math_max xs) minX) 2),
            py = addD minY (divD (subD (Math_max ys) minY) 2)\<rparr>)"

text \<open>One round of the \<open>for\<close> loop of \<open>getPolygonCentroid\<close>, on the accumulators (area, cx, cy).\<close>

definition centroidStep :: "point list \<Rightarrow> real \<times> real \<times> real \<Rightarrow> nat \<Rightarrow> real \<times> real \<times> real" where
  "centroidStep points acc i =
     (case acc of (area, cx, cy) \<Rightarrow>
        let p1 = points ! i;
            p2 = points ! ((i + 1) mod length points);
            crossProduct = subD (mulD (px p1) (py p2)) (mulD (px p2) (py p1))
        in (addD area crossProduct,
            addD cx (mulD (addD (px p1) (px p2)) crossProduct),
            addD cy (mulD (addD (py p1) (py p2)) crossProduct)))"

text \<open>
  The accumulators after the loop, and the area the threshold test reads. The literal
  \<open>1e-6\<close> is the double nearest to one millionth. The two divisors are never 0: the loop
  is followed by a division by 2, and the last two divisions are reached only with an
  area of absolute value at least \<open>1e-6\<close>.
\<close>

definition centroidLoop :: "point list \<Rightarrow> real \<times> real \<times> real" where
  "centroidLoop points = foldl (centroidStep points) (0, 0, 0) [0 ..< length points]"


definition getPolygonCentroid :: "point list \<Rightarrow> point" where
  "getPolygonCentroid points =
     (if length points < 3 then getBBoxCenter points
      else
        case centroidLoop points of
          (area0, cx, cy) \<Rightarrow>
            let area = divD area0 2
            in if \<bar>area\<bar> < rd (1 / 1000000) then getBBoxCenter points
               else \<lparr>px = divD cx (mulD 6 area), py = divD cy (mulD 6 area)\<rparr>)"










text \<open>The tight bounding box of a vertex list, and a panel whose stored box is that box.\<close>

definition tightBBox :: "point list \<Rightarrow> bbox" where
  "tightBBox ps =
     \<lparr>bbx = Min (px ` set ps), bby = Min (py ` set ps),
      bbw = Max (px ` set ps) - Min (px ` set ps),
      bbh = Max (py ` set ps) - Min (py ` set ps)\<rparr>"

definition storedBBox :: "shape \<Rightarrow> bbox option" where
  "storedBBox s =
     (case (width s, height s) of
        (Some w, Some h) \<Rightarrow> Some \<lparr>bbx = sx s, bby = sy s, bbw = w, bbh = h\<rparr>
      | _ \<Rightarrow> None)"

definition panelBoxTight :: "shape \<Rightarrow> bool" where
  "panelBoxTight s =
     (case kind s of Panel ps \<Rightarrow> storedBBox s = Some (tightBBox ps) | _ \<Rightarrow> True)"

section \<open>View transform (PanelEditor.tsx)\<close>

text \<open>
  The conversion at the end of \<open>getMousePos\<close>, from a point of the SVG element to
  document space.
\<close>

definition screenToDocument :: "ViewTransform \<Rightarrow> point \<Rightarrow> point" where
  "screenToDocument viewTransform p =
     \<lparr>px = (px p - vx viewTransform) / scale viewTransform,
      py = (py p - vy viewTransform) / scale viewTransform\<rparr>"

definition handleWheel :: "real \<Rightarrow> real \<Rightarrow> real \<Rightarrow> ViewTransform \<Rightarrow> ViewTransform" where
  "handleWheel deltaY mouseX mouseY viewTransform =
     (let scaleFactor = 11 / 10;
          newScale = (if deltaY < 0 then scale viewTransform * scaleFactor
                      else scale viewTransform / scaleFactor);
          clampedScale = max (1 / 10) (min newScale 10);
          newX = mouseX - (mouseX - vx viewTransform) * (clampedScale / scale viewTransform);
          newY = mouseY - (mouseY - vy viewTransform) * (clampedScale / scale viewTransform)
      in \<lparr>scale = clampedScale, vx = newX, vy = newY\<rparr>)"

datatype direction = ZoomIn | ZoomOut

definition zoom :: "direction \<Rightarrow> real \<Rightarrow> real \<Rightarrow> ViewTransform \<Rightarrow> ViewTransform" where
  "zoom dir viewWidth viewHeight viewTransform =
     (let centerX = viewWidth / 2;
          centerY = viewHeight / 2;
          scaleFactor = 5 / 4;
          newScale = (if dir = ZoomIn then scale viewTransform * scaleFactor
                      else scale viewTransform / scaleFactor);
          clampedScale = max (1 / 10) (min newScale 10);
          newX = centerX - (centerX - vx viewTransform) * (clampedScale / scale viewTransform);
          newY = centerY - (centerY - vy viewTransform) * (clampedScale / scale viewTransform)
      in \<lparr>scale = clampedScale, vx = newX, vy = newY\<rparr>)"

section \<open>Pointer interaction (PanelEditor.tsx)\<close>

datatype action =
    NoAction
  | Creating shape
  | Panning point ViewTransform
  | DrawingStroke string "point list"
  | Dragging string point
  | Resizing string string shape
  | DraggingTail string
  | EditingPanelVertex string nat
  | DraggingArrowHandle string nat

text \<open>
  The shapes that \<open>handleMouseDown\<close> creates for the panel and the bubble tool; it appends
  the new shape to the list without recording history. The id is \<open>Date.now().toString()\<close>,
  a parameter here.
\<close>

definition newPanel :: "string \<Rightarrow> point \<Rightarrow> shape" where
  "newPanel i pos =
     \<lparr>sid = i, sx = px pos, sy = py pos, width = Some 0, height = Some 0, kind = Panel []\<rparr>"

definition newBubble :: "string \<Rightarrow> bubbleType \<Rightarrow> point \<Rightarrow> shape" where
  "newBubble i activeBubbleType pos =
     \<lparr>sid = i, sx = px pos, sy = py pos, width = Some 0, height = Some 0,
      kind = Bubble activeBubbleType ''Double-click to edit'' None\<rparr>"

subsection \<open>\<open>handleMouseMove\<close>, case \<open>creating\<close>\<close>

text \<open>
  For an arrow the shape of the action's id is the arrow under creation (the source casts
  it to \<open>ArrowShape\<close>); it keeps its first point and takes the pointer as its second.
\<close>

definition moveCreating :: "shape \<Rightarrow> point \<Rightarrow> shape list \<Rightarrow> shape list" where
  "moveCreating actionShape pos shps =
     (let startX = sx actionShape;
          startY = sy actionShape;
          newX = min (px pos) startX;
          newY = min (py pos) startY;
          newWidth = \<bar>px pos - startX\<bar>;
          newHeight = \<bar>py pos - startY\<bar>
      in if isArrow actionShape then
           map (\<lambda>s.
             if sid s \<noteq> sid actionShape then s
             else (case kind s of
                     Arrow points c w \<Rightarrow> s\<lparr>kind := Arrow [points ! 0, pos] c w\<rparr>
                   | _ \<Rightarrow> s))
           shps
         else
           map (\<lambda>s.
             if sid s \<noteq> sid actionShape then s
             else (case kind s of
                     Panel _ \<Rightarrow>
                       s\<lparr>sx := newX, sy := newY, width := Some newWidth, height := Some newHeight,
                         kind := Panel [\<lparr>px = newX, py = newY\<rparr>,
                                        \<lparr>px = newX + newWidth, py = newY\<rparr>,
                                        \<lparr>px = newX + newWidth, py = newY + newHeight\<rparr>,
                                        \<lparr>px = newX, py = newY + newHeight\<rparr>]\<rparr>
                   | _ \<Rightarrow>
                       s\<lparr>sx := newX, sy := newY, width := Some newWidth,
                         height := Some newHeight\<rparr>))
           shps)"

subsection \<open>\<open>handleMouseMove\<close>, case \<open>dragging\<close>\<close>

definition shiftPoint :: "real \<Rightarrow> real \<Rightarrow> point \<Rightarrow> point" where
  "shiftPoint dx dy p = \<lparr>px = px p + dx, py = py p + dy\<rparr>"

definition dragShape :: "point \<Rightarrow> point \<Rightarrow> shape \<Rightarrow> shape" where
  "dragShape startOffset pos s =
     (let newX = px pos - px startOffset;
          newY = py pos - py startOffset;
          dx = newX - sx s;
          dy = newY - sy s
      in case kind s of
           Panel points \<Rightarrow>
             let newPoints = map (shiftPoint dx dy) points;
                 xs = map px newPoints; ys = map py newPoints;
                 minX = Math_min xs; minY = Math_min ys
             in s\<lparr>kind := Panel newPoints, sx := minX, sy := minY,
                  width := Some (Math_max xs - minX), height := Some (Math_max ys - minY)\<rparr>
         | Arrow points c w \<Rightarrow>
             s\<lparr>kind := Arrow (map (shiftPoint dx dy) points) c w, sx := newX, sy := newY\<rparr>
         | Drawing strokes c w \<Rightarrow>
             s\<lparr>kind := Drawing (map (map (shiftPoint dx dy)) strokes) c w, sx := newX, sy := newY\<rparr>
         | Bubble bt txt tail \<Rightarrow>
             s\<lparr>sx := newX, sy := newY, kind := Bubble bt txt (map_option (shiftPoint dx dy) tail)\<rparr>
         | Image href characterId panelIndex pose \<Rightarrow>
             (case pose of
                Some (SkeletonPose preset poseData comment) \<Rightarrow>
                  s\<lparr>sx := newX, sy := newY,
                    kind := Image href characterId panelIndex
                      (Some (SkeletonPose preset
                         (map (\<lambda>(key, point). (key, shiftPoint dx dy point)) poseData) comment))\<rparr>
              | _ \<Rightarrow> s\<lparr>sx := newX, sy := newY\<rparr>)
         | Text _ _ \<Rightarrow> s\<lparr>sx := newX, sy := newY\<rparr>)"

definition moveDragging :: "string \<Rightarrow> point \<Rightarrow> point \<Rightarrow> shape list \<Rightarrow> shape list" where
  "moveDragging shapeId startOffset pos shps =
     map (\<lambda>s. if sid s \<noteq> shapeId then s else dragShape startOffset pos s) shps"

text \<open>
  \<open>handleShapeInteraction\<close> on the body of a shape starts the drag: the offset is taken from
  the box that \<open>getShapeBBox\<close> computes.
\<close>

definition startDragging :: "shape \<Rightarrow> point \<Rightarrow> action" where
  "startDragging sh pos =
     Dragging (sid sh)
       \<lparr>px = px pos - bbx (getShapeBBox sh), py = py pos - bby (getShapeBBox sh)\<rparr>"

text \<open>The joints of an image shape with a skeleton pose.\<close>

definition skeletonOf :: "shape \<Rightarrow> SkeletonData option" where
  "skeletonOf s =
     (case kind s of
        Image _ _ _ (Some (SkeletonPose _ poseData _)) \<Rightarrow> Some poseData
      | _ \<Rightarrow> None)"

subsection \<open>\<open>handleMouseMove\<close>, case \<open>editingPanelVertex\<close>, and \<open>handleAddPanelVertex\<close>\<close>

text \<open>
  The vertex index comes from a rendered vertex handle of the same panel, or is the index
  of a vertex just inserted, so it is inside the vertex list.
\<close>

definition moveEditingPanelVertex :: "string \<Rightarrow> nat \<Rightarrow> point \<Rightarrow> shape list \<Rightarrow> shape list" where
  "moveEditingPanelVertex shapeId vertexIndex pos shps =
     map (\<lambda>s. case kind s of
                 Panel points \<Rightarrow>
                   if sid s \<noteq> shapeId then s
                   else s\<lparr>kind := Panel (points[vertexIndex := pos])\<rparr>
               | _ \<Rightarrow> s)
         shps"

definition addPanelVertex :: "shape \<Rightarrow> nat \<Rightarrow> shape list \<Rightarrow> shape list" where
  "addPanelVertex sh edgeIndex shps =
     (case kind sh of
        Panel points \<Rightarrow>
          let p1 = points ! edgeIndex;
              p2 = points ! ((edgeIndex + 1) mod length points);
              newPoint = \<lparr>px = (px p1 + px p2) / 2, py = (py p1 + py p2) / 2\<rparr>;
              newPoints = take (edgeIndex + 1) points @ [newPoint] @ drop (edgeIndex + 1) points
          in map (\<lambda>s. if sid s = sid sh \<and> isPanel s then s\<lparr>kind := Panel newPoints\<rparr> else s) shps
      | _ \<Rightarrow> shps)"

subsection \<open>\<open>handleMouseMove\<close>, case \<open>resizing\<close>\<close>

text \<open>\<open>handle.includes(sub)\<close>: the substring test.\<close>

fun startsWith :: "string \<Rightarrow> string \<Rightarrow> bool" where
  "startsWith cs [] = True"
| "startsWith [] (d # ds) = False"
| "startsWith (c # cs) (d # ds) = (c = d \<and> startsWith cs ds)"

fun includesStr :: "string \<Rightarrow> string \<Rightarrow> bool" where
  "includesStr [] sub = (sub = [])"
| "includesStr (c # cs) sub = (startsWith (c # cs) sub \<or> includesStr cs sub)"

text \<open>
  The box that the handle and the pointer give, from the shape recorded when the gesture
  started. That shape is a bubble, an image or a text, whose width and height are present.
\<close>

definition resizeBox :: "string \<Rightarrow> shape \<Rightarrow> point \<Rightarrow> bbox" where
  "resizeBox handle originalShape pos =
     (let x0 = sx originalShape; y0 = sy originalShape;
          w0 = the (width originalShape); h0 = the (height originalShape);
          w1 = (if includesStr handle ''right'' then max 20 (px pos - x0) else w0);
          h1 = (if includesStr handle ''bottom'' then max 20 (py pos - y0) else h0);
          newWidth = max 20 ((sx originalShape + w0) - px pos);
          x2 = (if includesStr handle ''left'' then (sx originalShape + w0) - newWidth else x0);
          w2 = (if includesStr handle ''left'' then newWidth else w1);
          newHeight = max 20 ((sy originalShape + h0) - py pos);
          y2 = (if includesStr handle ''top'' then (sy originalShape + h0) - newHeight else y0);
          h2 = (if includesStr handle ''top'' then newHeight else h1)
      in \<lparr>bbx = x2, bby = y2, bbw = w2, bbh = h2\<rparr>)"

definition rescalePoint :: "bbox \<Rightarrow> shape \<Rightarrow> point \<Rightarrow> point" where
  "rescalePoint b originalShape originalPoint =
     (let scaleX = bbw b / the (width originalShape);
          scaleY = bbh b / the (height originalShape);
          relativeX = px originalPoint - sx originalShape;
          relativeY = py originalPoint - sy originalShape
      in \<lparr>px = bbx b + relativeX * scaleX, py = bby b + relativeY * scaleY\<rparr>)"

definition resizeShape :: "bbox \<Rightarrow> shape \<Rightarrow> shape \<Rightarrow> shape" where
  "resizeShape b originalShape s =
     (let updatedShape = s\<lparr>sx := bbx b, sy := bby b, width := Some (bbw b), height := Some (bbh b)\<rparr>
      in case (kind updatedShape, kind originalShape) of
           (Image href characterId panelIndex (Some (SkeletonPose preset poseData comment)),
            Image _ _ _ (Some (SkeletonPose _ originalSkeletonData _))) \<Rightarrow>
              if the (width originalShape) > 0 \<and> the (height originalShape) > 0
              then updatedShape\<lparr>kind := Image href characterId panelIndex
                     (Some (SkeletonPose preset
                        (map (\<lambda>(key, originalPoint). (key, rescalePoint b originalShape originalPoint))
                           originalSkeletonData)
                        comment))\<rparr>
              else updatedShape
         | _ \<Rightarrow> updatedShape)"

definition moveResizing :: "string \<Rightarrow> string \<Rightarrow> shape \<Rightarrow> point \<Rightarrow> shape list \<Rightarrow> shape list" where
  "moveResizing shapeId handle originalShape pos shps =
     map (\<lambda>s. if sid s \<noteq> shapeId then s
               else resizeShape (resizeBox handle originalShape pos) originalShape s)
         shps"

subsection \<open>\<open>handleMouseUp\<close>\<close>

text \<open>
  The id that \<open>shapes.find\<close> looks for: \<open>action.shapeId\<close>, or \<open>action.shape.id\<close> of a
  creation. Panning and no action commit nothing.
\<close>

fun actionTarget :: "action \<Rightarrow> string option" where
  "actionTarget NoAction = None"
| "actionTarget (Panning _ _) = None"
| "actionTarget (Creating sh) = Some (sid sh)"
| "actionTarget (DrawingStroke i _) = Some i"
| "actionTarget (Dragging i _) = Some i"
| "actionTarget (Resizing i _ _) = Some i"
| "actionTarget (DraggingTail i) = Some i"
| "actionTarget (EditingPanelVertex i _) = Some i"
| "actionTarget (DraggingArrowHandle i _) = Some i"

text \<open>\<open>shape.width < 10\<close>.\<close>

definition below10 :: "real option \<Rightarrow> bool" where
  "below10 v = (case v of Some r \<Rightarrow> r < 10 | None \<Rightarrow> False)"

definition tooSmall :: "shape \<Rightarrow> bool" where
  "tooSmall s = ((isBubble s \<or> isPanel s) \<and> (below10 (width s) \<or> below10 (height s)))"

text \<open>The list that \<open>handleMouseUp\<close> passes to \<open>onShapesChange(..., true)\<close>, if any.\<close>

definition handleMouseUp :: "action \<Rightarrow> shape list \<Rightarrow> shape list option" where
  "handleMouseUp act shps =
     (case actionTarget act of
        None \<Rightarrow> None
      | Some i \<Rightarrow>
          (case find (\<lambda>s. sid s = i) shps of
             Some sh \<Rightarrow>
               if tooSmall sh then Some (filter (\<lambda>s. sid s \<noteq> sid sh) shps)
               else Some shps
           | None \<Rightarrow> Some shps))"

definition mouseUpPage :: "(nat \<Rightarrow> string \<Rightarrow> string) \<Rightarrow> string \<Rightarrow> action \<Rightarrow> page \<Rightarrow> page" where
  "mouseUpPage rebuild cur act p =
     (case handleMouseUp act (shapes p) of
        None \<Rightarrow> p
      | Some committed \<Rightarrow> handleShapesChange rebuild cur committed True p)"

section \<open>Render order and compositor (PanelEditor.tsx)\<close>

text \<open>
  The on-screen renderer maps over \<open>sortedShapes\<close>: the shape list sorted by the
  \<open>shapeOrder\<close> table. \<open>Array.prototype.sort\<close> is stable, as \<open>sort_key\<close> is.
\<close>

definition shapeOrder :: "shape \<Rightarrow> nat" where
  "shapeOrder s =
     (case kind s of
        Panel _ \<Rightarrow> 10
      | Drawing _ _ _ \<Rightarrow> 20
      | Arrow _ _ _ \<Rightarrow> 25
      | Image _ _ _ _ \<Rightarrow> 30
      | Bubble _ _ _ \<Rightarrow> 40
      | Text _ _ \<Rightarrow> 50)"

definition sortedShapes :: "shape list \<Rightarrow> shape list" where
  "sortedShapes shps = sort_key shapeOrder shps"

text \<open>
  The elements that \<open>getLayoutAsImage\<close> appends to the content group. Colours, stroke
  widths and fonts are constants of the source and are left out. The path of a bubble is
  the string \<open>getBubblePath\<close> computes from the bubble's type, box and tail; the element
  keeps these inputs.
\<close>

datatype svgElement =
    Polygon "point list"
  | PanelNumber point nat
  | Line point point
  | Circle point string
  | PoseImage string real real real real
  | PosePath "point list list"
  | NameLabel real real string
  | CommentLabel real real string
  | BubblePath bubbleType real real real real "point option"
  | BubbleText real real real real string
  | TextElement real real real string

record Character =
  cid :: string
  cname :: string

definition skeletonConnections :: "(string \<times> string) list" where
  "skeletonConnections =
     [(''head'', ''neck''), (''neck'', ''leftShoulder''), (''neck'', ''rightShoulder''),
      (''leftShoulder'', ''leftElbow''), (''leftElbow'', ''leftHand''),
      (''rightShoulder'', ''rightElbow''), (''rightElbow'', ''rightHand''),
      (''neck'', ''hips''),
      (''hips'', ''leftHip''), (''hips'', ''rightHip''),
      (''leftHip'', ''leftKnee''), (''leftKnee'', ''leftFoot''),
      (''rightHip'', ''rightKnee''), (''rightKnee'', ''rightFoot''),
      (''leftEye'', ''rightEye''),
      (''nose'', ''mouth'')]"

definition drawPose :: "shape \<Rightarrow> pose \<Rightarrow> svgElement list" where
  "drawPose imgShape p =
     (case p of
        SkeletonPose _ poseData _ \<Rightarrow>
          concat (map (\<lambda>(start, fin).
                    case (map_of poseData start, map_of poseData fin) of
                      (Some a, Some b) \<Rightarrow> [Line a b]
                    | _ \<Rightarrow> [])
                  skeletonConnections)
          @ map (\<lambda>(key, pos). Circle pos key) poseData
      | ImagePose href \<Rightarrow>
          [PoseImage href (sx imgShape) (sy imgShape)
             (orZero (width imgShape)) (orZero (height imgShape))]
      | DrawingPose strokes \<Rightarrow>
          [PosePath (map (map (\<lambda>q. \<lparr>px = sx imgShape + px q * orZero (width imgShape),
                                      py = sy imgShape + py q * orZero (height imgShape)\<rparr>))
                       strokes)])"

text \<open>
  One call of a \<open>forEach\<close> callback of the compositor, on the index in its filtered list
  and the shape. Each loop runs on the shapes of one type; the compositor has no loop for
  drawings and none for arrows. The comment of a skeleton pose is written in parentheses.
\<close>

definition drawVisit :: "Character list \<Rightarrow> nat \<times> shape \<Rightarrow> svgElement list" where
  "drawVisit charactersToDraw v =
     (case v of (index, s) \<Rightarrow>
        (case kind s of
           Panel points \<Rightarrow> [Polygon points, PanelNumber (getPolygonCentroid points) (index + 1)]
         | Image href characterId panelIndex pose \<Rightarrow>
             (case pose of Some p \<Rightarrow> drawPose s p | None \<Rightarrow> [])
             @ (case find (\<lambda>c. cid c = characterId) charactersToDraw of
                  Some character \<Rightarrow>
                    [NameLabel (bbx (getShapeBBox s) + bbw (getShapeBBox s) / 2)
                               (bby (getShapeBBox s) + bbh (getShapeBBox s) / 2)
                               (cname character)]
                | None \<Rightarrow> [])
             @ (case pose of
                  Some (SkeletonPose _ _ comment) \<Rightarrow>
                    if comment \<noteq> []
                    then [CommentLabel (bbx (getShapeBBox s) + bbw (getShapeBBox s) / 2)
                                       (bby (getShapeBBox s) + bbh (getShapeBBox s) + 20)
                                       (''('' @ comment @ '')'')]
                    else []
                | _ \<Rightarrow> [])
         | Bubble bt txt tail \<Rightarrow>
             [BubblePath bt (sx s) (sy s) (orZero (width s)) (orZero (height s)) tail,
              BubbleText (sx s + 10) (sy s + 10) (orZero (width s) - 20) (orZero (height s) - 20) txt]
         | Text txt fontSize \<Rightarrow> [TextElement (sx s) (sy s) fontSize txt]
         | _ \<Rightarrow> []))"

text \<open>The shapes the four loops visit, in order, each with its \<open>forEach\<close> index.\<close>

definition compositorVisits :: "bool \<Rightarrow> shape list \<Rightarrow> (nat \<times> shape) list" where
  "compositorVisits includeCharacters shps =
     enumerate 0 (filter isPanel shps)
     @ (if includeCharacters then enumerate 0 (filter isImage shps) else [])
     @ enumerate 0 (filter isBubble shps)
     @ enumerate 0 (filter isText shps)"

definition compositorOrder :: "bool \<Rightarrow> shape list \<Rightarrow> shape list" where
  "compositorOrder includeCharacters shps = map snd (compositorVisits includeCharacters shps)"

record layoutImage =
  imageWidth :: real
  imageHeight :: real
  elements :: "svgElement list"

text \<open>
  \<open>canvasConfig\<close> is the page size \<open>(w, h)\<close> looked up from the aspect ratio; the SVG and
  the canvas it is drawn to both take this size.
\<close>

definition getLayoutAsImage ::
  "real \<times> real \<Rightarrow> bool \<Rightarrow> Character list \<Rightarrow> shape list \<Rightarrow> layoutImage" where
  "getLayoutAsImage canvasConfig includeCharacters charactersToDraw shps =
     \<lparr>imageWidth = fst canvasConfig,
      imageHeight = snd canvasConfig,
      elements = concat (map (drawVisit charactersToDraw)
                           (compositorVisits includeCharacters shps))\<rparr>"

section \<open>Example shapes\<close>

definition pt :: "real \<Rightarrow> real \<Rightarrow> point" where
  "pt a b = \<lparr>px = a, py = b\<rparr>"

definition examplePanel :: shape where
  "examplePanel =
     \<lparr>sid = ''1'', sx = 0, sy = 0, width = Some 100, height = Some 100,
      kind = Panel [pt 0 0, pt 100 0, pt 100 100, pt 0 100]\<rparr>"

definition exampleText :: shape where
  "exampleText =
     \<lparr>sid = ''2'', sx = 30, sy = 10, width = Some 200, height = Some 40,
      kind = Text ''Enter Text'' 30\<rparr>"

definition exampleDrawing :: shape where
  "exampleDrawing =
     \<lparr>sid = ''3'', sx = 5, sy = 5, width = None, height = None,
      kind = Drawing [[pt 5 5, pt 50 60, pt 90 20]] ''#000000'' 5\<rparr>"

definition exampleArrow :: shape where
  "exampleArrow =
     \<lparr>sid = ''4'', sx = 10, sy = 10, width = None, height = None,
      kind = Arrow [pt 10 10, pt 200 120] ''#FF0000'' 5\<rparr>"

definition exampleBubble :: shape where
  "exampleBubble =
     \<lparr>sid = ''5'', sx = 40, sy = 40, width = Some 120, height = Some 60,
      kind = Bubble Rounded ''Double-click to edit'' None\<rparr>"

definition exampleImage :: shape where
  "exampleImage =
     \<lparr>sid = ''6'', sx = 100, sy = 100, width = Some 150, height = Some 250,
      kind = Image ''sheet'' ''c1'' 0
        (Some (SkeletonPose Full [(''head'', pt 175 137.5), (''neck'', pt 175 175)] ''''))\<rparr>"

text \<open>A page with a redo tail: two commits on a fresh page, then two undos.\<close>

definition pageAfterTwoUndos :: page where
  "pageAfterTwoUndos =
     handleUndo ''p'' (handleUndo ''p''
       (commits (\<lambda>n s. s) ''p'' [[examplePanel], [examplePanel, exampleText]] (initialPage ''p'')))"

text \<open>The example panel after its first vertex was dragged to \<open>(-50, -50)\<close>.\<close>

definition editedPanel :: shape where
  "editedPanel = hd (moveEditingPanelVertex ''1'' 0 (pt (-50) (-50)) [examplePanel])"

section \<open>History: basic facts\<close>

lemma page_ok_initialPage: "page_ok (initialPage i)"
  by (simp add: page_ok_def initialPage_def)

lemma page_ok_handleShapesChange:
  "page_ok p \<Longrightarrow> page_ok (handleShapesChange rebuild cur ns rh p)"
  by (simp add: page_ok_def handleShapesChange_def Let_def)

lemma page_ok_handleUndo: "page_ok p \<Longrightarrow> page_ok (handleUndo cur p)"
  by (auto simp: page_ok_def handleUndo_def Let_def)

lemma page_ok_handleRedo: "page_ok p \<Longrightarrow> page_ok (handleRedo cur p)"
  by (auto simp: page_ok_def handleRedo_def Let_def)

section \<open>Minimum and maximum of a list\<close>

lemma Math_min_Min: "vs \<noteq> [] \<Longrightarrow> Math_min vs = Min (set vs)"
proof (cases vs)
  case Nil
  then show "vs \<noteq> [] \<Longrightarrow> ?thesis" by simp
next
  case (Cons v ws)
  have "(\<lambda>a b. min b a) = (min :: real \<Rightarrow> real \<Rightarrow> real)"
    by (intro ext) (simp add: min.commute)
  then have "foldl min v ws = Min (set (v # ws))"
    using Min.set_eq_fold[of v ws] by (simp add: foldl_conv_fold)
  then show ?thesis using Cons by simp
qed

lemma Math_max_Max: "vs \<noteq> [] \<Longrightarrow> Math_max vs = Max (set vs)"
proof (cases vs)
  case Nil
  then show "vs \<noteq> [] \<Longrightarrow> ?thesis" by simp
next
  case (Cons v ws)
  have "(\<lambda>a b. max b a) = (max :: real \<Rightarrow> real \<Rightarrow> real)"
    by (intro ext) (simp add: max.commute)
  then have "foldl max v ws = Max (set (v # ws))"
    using Max.set_eq_fold[of v ws] by (simp add: foldl_conv_fold)
  then show ?thesis using Cons by simp
qed

section \<open>History: undo and redo\<close>

lemma commits_facts:
  "pid p = cur \<Longrightarrow> page_ok p \<Longrightarrow>
     shapesHistory (commits rebuild cur cs p) =
       (if cs = [] then shapesHistory p else take (shapesHistoryIndex p + 1) (shapesHistory p) @ cs)
   \<and> shapesHistoryIndex (commits rebuild cur cs p) = shapesHistoryIndex p + length cs
   \<and> pid (commits rebuild cur cs p) = cur
   \<and> shapes (commits rebuild cur cs p) = (if cs = [] then shapes p else last cs)"
proof (induction cs arbitrary: p)
  case Nil
  then show ?case by (simp add: commits_def page_ok_def)
next
  case (Cons c cs)
  let ?q = "handleShapesChange rebuild cur c True p"
  have q: "pid ?q = cur" "page_ok ?q"
    "shapesHistory ?q = take (shapesHistoryIndex p + 1) (shapesHistory p) @ [c]"
    "shapesHistoryIndex ?q = shapesHistoryIndex p + 1" "shapes ?q = c"
    using Cons.prems by (simp_all add: handleShapesChange_def Let_def page_ok_def)
  have step: "commits rebuild cur (c # cs) p = commits rebuild cur cs ?q"
    by (simp add: commits_def)
  have len: "length (take (shapesHistoryIndex p + 1) (shapesHistory p)) = shapesHistoryIndex p + 1"
    using Cons.prems by (simp add: page_ok_def)
  from Cons.IH[OF q(1) q(2)] show ?case
    unfolding step using q(3,4,5) len by simp
qed

lemma undo_funpow:
  "pid r = cur \<Longrightarrow> j \<le> shapesHistoryIndex r \<Longrightarrow>
   ((handleUndo cur) ^^ j) r =
     (if j = 0 then r
      else r\<lparr>shapes := shapesHistory r ! (shapesHistoryIndex r - j),
             shapesHistoryIndex := shapesHistoryIndex r - j\<rparr>)"
proof (induction j)
  case 0
  then show ?case by simp
next
  case (Suc j)
  then show ?case
    by (cases "j = 0") (simp_all add: handleUndo_def Let_def)
qed

lemma redo_funpow:
  "pid r = cur \<Longrightarrow> shapesHistoryIndex r + j < length (shapesHistory r) \<Longrightarrow>
   ((handleRedo cur) ^^ j) r =
     (if j = 0 then r
      else r\<lparr>shapes := shapesHistory r ! (shapesHistoryIndex r + j),
             shapesHistoryIndex := shapesHistoryIndex r + j\<rparr>)"
proof (induction j)
  case 0
  then show ?case by simp
next
  case (Suc j)
  then show ?case
    by (cases "j = 0") (simp_all add: handleRedo_def Let_def)
qed


text \<open>
  Claim C1. On the current page, with its index inside its history: after the commits
  \<open>cs\<close> (\<open>n\<close> of them), every one of \<open>n\<close> undos leaves the history as it is, lowers the
  index by one and makes the live shape list the snapshot at the new index; every one of the
  following \<open>n\<close> redos raises the index by one and makes the live list the snapshot at the
  new index, which is the commit of that position; after the \<open>n\<close> redos the page is the
  page after the last commit, and its live list is the last committed list. Undo at index 0
  and redo at the last index return the page unchanged.
\<close>

theorem undo_redo_inverse:
  assumes cur: "pid p = cur" and ok: "page_ok p"
  shows "let q = commits rebuild cur cs p; n = length cs;
             u = (handleUndo cur ^^ n) q in
         (\<forall>j. 1 \<le> j \<and> j \<le> n \<longrightarrow>
            (let r = (handleUndo cur ^^ j) q in
               shapesHistory r = shapesHistory q
             \<and> shapesHistoryIndex r = shapesHistoryIndex q - j
             \<and> shapes r = shapesHistory q ! (shapesHistoryIndex q - j)))
       \<and> (\<forall>j. 1 \<le> j \<and> j \<le> n \<longrightarrow>
            (let r = (handleRedo cur ^^ j) u in
               shapesHistory r = shapesHistory q
             \<and> shapesHistoryIndex r = shapesHistoryIndex u + j
             \<and> shapes r = shapesHistory q ! (shapesHistoryIndex u + j)
             \<and> shapes r = cs ! (j - 1)))
       \<and> (handleRedo cur ^^ n) u = q
       \<and> (cs \<noteq> [] \<longrightarrow> shapes ((handleRedo cur ^^ n) u) = last cs)
       \<and> (\<forall>r. shapesHistoryIndex r = 0 \<longrightarrow> handleUndo cur r = r)
       \<and> (\<forall>r. shapesHistoryIndex r = length (shapesHistory r) - 1 \<longrightarrow> handleRedo cur r = r)"
proof -
  define q where "q = commits rebuild cur cs p"
  define n where "n = length cs"
  define u where "u = (handleUndo cur ^^ n) q"
  define i where "i = shapesHistoryIndex p"
  have cf: "shapesHistory q = (if cs = [] then shapesHistory p else take (i + 1) (shapesHistory p) @ cs)"
    "shapesHistoryIndex q = i + n" "pid q = cur"
    "shapes q = (if cs = [] then shapes p else last cs)"
    using commits_facts[OF cur ok, of rebuild cs] by (simp_all add: q_def n_def i_def)
  have lt: "i < length (shapesHistory p)"
    using ok by (simp add: page_ok_def i_def)
  have len: "length (take (i + 1) (shapesHistory p)) = i + 1"
    using lt by simp
  have nth: "shapesHistory q ! (i + j) = cs ! (j - 1)" if "1 \<le> j" "j \<le> n" for j
  proof -
    from that have "cs \<noteq> []" by (auto simp: n_def)
    then have "shapesHistory q ! (i + j) = (take (i + 1) (shapesHistory p) @ cs) ! (i + j)"
      by (simp add: cf(1))
    also have "\<dots> = cs ! (i + j - (i + 1))"
      using that len by (simp add: nth_append)
    finally show ?thesis by simp
  qed
  have un_j: "(handleUndo cur ^^ j) q =
      q\<lparr>shapes := shapesHistory q ! (shapesHistoryIndex q - j),
        shapesHistoryIndex := shapesHistoryIndex q - j\<rparr>" if "1 \<le> j" "j \<le> n" for j
    using undo_funpow[OF cf(3), of j] that by (simp add: cf(2))
  have u_eq: "u = (if n = 0 then q else q\<lparr>shapes := shapesHistory q ! i, shapesHistoryIndex := i\<rparr>)"
    using un_j[of n] by (cases "n = 0") (simp_all add: u_def cf(2))
  have u_facts: "pid u = cur" "shapesHistory u = shapesHistory q" "shapesHistoryIndex u = i"
    using cf(2,3) by (simp_all add: u_eq)
  have qlen: "i + n < length (shapesHistory q)"
    using lt len by (auto simp: cf(1) n_def)
  have re_j: "(handleRedo cur ^^ j) u =
      u\<lparr>shapes := shapesHistory q ! (i + j), shapesHistoryIndex := i + j\<rparr>"
    if "1 \<le> j" "j \<le> n" for j
    using redo_funpow[OF u_facts(1), of j] that qlen by (simp add: u_facts)
  have rtrip: "(handleRedo cur ^^ n) u = q"
  proof (cases "n = 0")
    case True
    then show ?thesis by (simp add: u_eq)
  next
    case False
    then have ne: "cs \<noteq> []" by (auto simp: n_def)
    have "1 \<le> n" using False by simp
    then have "shapesHistory q ! (i + n) = cs ! (n - 1)"
      using nth[of n] by simp
    then have "shapesHistory q ! (i + n) = last cs"
      using ne by (simp add: n_def last_conv_nth)
    then show ?thesis
      using re_j[of n] False ne cf(2,4) by (simp add: u_eq)
  qed
  have A: "\<forall>j. 1 \<le> j \<and> j \<le> n \<longrightarrow>
            (let r = (handleUndo cur ^^ j) q in
               shapesHistory r = shapesHistory q
             \<and> shapesHistoryIndex r = shapesHistoryIndex q - j
             \<and> shapes r = shapesHistory q ! (shapesHistoryIndex q - j))"
    using un_j by (simp add: Let_def)
  have B: "\<forall>j. 1 \<le> j \<and> j \<le> n \<longrightarrow>
            (let r = (handleRedo cur ^^ j) u in
               shapesHistory r = shapesHistory q
             \<and> shapesHistoryIndex r = shapesHistoryIndex u + j
             \<and> shapes r = shapesHistory q ! (shapesHistoryIndex u + j)
             \<and> shapes r = cs ! (j - 1))"
    using re_j nth by (simp add: Let_def u_facts)
  have C: "cs \<noteq> [] \<longrightarrow> shapes ((handleRedo cur ^^ n) u) = last cs"
    using rtrip cf(4) by simp
  have D: "\<forall>r. shapesHistoryIndex r = 0 \<longrightarrow> handleUndo cur r = r"
    by (simp add: handleUndo_def)
  have E: "\<forall>r. shapesHistoryIndex r = length (shapesHistory r) - 1 \<longrightarrow> handleRedo cur r = r"
    by (simp add: handleRedo_def)
  show ?thesis
    using A B rtrip C D E unfolding Let_def q_def n_def u_def by blast
qed

theorem undo_redo_inverse_witness:
  "pid (initialPage ''p'') = ''p'' \<and> page_ok (initialPage ''p'')
   \<and> shapes ((handleUndo ''p'' ^^ 1)
         (commits (\<lambda>n s. s) ''p'' [[examplePanel], [examplePanel, exampleText]] (initialPage ''p'')))
       = [examplePanel]
   \<and> shapes ((handleUndo ''p'' ^^ 2)
         (commits (\<lambda>n s. s) ''p'' [[examplePanel], [examplePanel, exampleText]] (initialPage ''p'')))
       = []
   \<and> shapes ((handleRedo ''p'' ^^ 2) ((handleUndo ''p'' ^^ 2)
         (commits (\<lambda>n s. s) ''p'' [[examplePanel], [examplePanel, exampleText]] (initialPage ''p''))))
       = [examplePanel, exampleText]"
proof -
  let ?cs = "[[examplePanel], [examplePanel, exampleText]]"
  let ?q = "commits (\<lambda>n s. s) ''p'' ?cs (initialPage ''p'')"
  have h1: "pid (initialPage ''p'') = ''p''"
    by (simp add: initialPage_def)
  have h2: "page_ok (initialPage ''p'')"
    by (simp add: initialPage_def page_ok_def)
  have ev: "?q = \<lparr>pid = ''p'', shapes = [examplePanel, exampleText],
         shapesHistory = [[], [examplePanel], [examplePanel, exampleText]],
         shapesHistoryIndex = 2, sceneDescription = []\<rparr>"
    by (simp add: commits_def handleShapesChange_def initialPage_def Let_def)
  have u1: "shapes ((handleUndo ''p'' ^^ 1) ?q) = [examplePanel]"
    unfolding ev by (simp add: handleUndo_def Let_def)
  have u2: "shapes ((handleUndo ''p'' ^^ 2) ?q) = []"
    unfolding ev by (simp add: handleUndo_def Let_def numeral_2_eq_2)
  note T = undo_redo_inverse [OF h1 h2, of "\<lambda>n s. s" ?cs, unfolded Let_def]
  have n: "length ?cs = 2"
    by simp
  from T have "(handleRedo ''p'' ^^ length ?cs) ((handleUndo ''p'' ^^ length ?cs) ?q) = ?q"
    by blast
  then have r2: "shapes ((handleRedo ''p'' ^^ 2) ((handleUndo ''p'' ^^ 2) ?q))
      = [examplePanel, exampleText]"
    unfolding n by (simp add: ev)
  show ?thesis
    using h1 h2 u1 u2 r2 by blast
qed

section \<open>History: gestures\<close>

lemma updatesInPlace_facts:
  "pid p = cur \<Longrightarrow>
     shapesHistoryIndex (updatesInPlace rebuild cur us p) = shapesHistoryIndex p
   \<and> shapesHistory (updatesInPlace rebuild cur us p) =
       (if us = [] then shapesHistory p else (shapesHistory p)[shapesHistoryIndex p := last us])
   \<and> shapes (updatesInPlace rebuild cur us p) = (if us = [] then shapes p else last us)
   \<and> pid (updatesInPlace rebuild cur us p) = cur"
proof (induction us arbitrary: p)
  case Nil
  then show ?case by (simp add: updatesInPlace_def)
next
  case (Cons u us)
  let ?q = "handleShapesChange rebuild cur u False p"
  have q: "pid ?q = cur" "shapesHistoryIndex ?q = shapesHistoryIndex p"
    "shapesHistory ?q = (shapesHistory p)[shapesHistoryIndex p := u]" "shapes ?q = u"
    using Cons.prems by (simp_all add: handleShapesChange_def Let_def)
  have step: "updatesInPlace rebuild cur (u # us) p = updatesInPlace rebuild cur us ?q"
    by (simp add: updatesInPlace_def)
  from Cons.IH[OF q(1)] show ?case
    unfolding step using q(2,3,4) by simp
qed

text \<open>
  Claim C2, as amended. On the current page, with its index \<open>i\<close> inside its history: the
  in-place updates \<open>us\<close> of a gesture leave the index and the length of the history as they
  are, and every entry but the one at \<open>i\<close>, so the redo tail stays; the live list and the
  entry at \<open>i\<close> become the last update. The commit at pointer-up
  then cuts the history after \<open>i\<close> and appends one entry: the history has \<open>i + 2\<close> entries,
  whatever the number of updates, and the index is \<open>i + 1\<close>. When the index was at the last
  entry, the history is one entry longer than before the gesture.
\<close>

theorem gesture_one_entry:
  assumes cur: "pid p = cur" and ok: "page_ok p"
  shows "let i = shapesHistoryIndex p;
             q = updatesInPlace rebuild cur us p;
             r = handleShapesChange rebuild cur final True q in
           shapesHistoryIndex q = i
         \<and> shapes q = (if us = [] then shapes p else last us)
         \<and> shapesHistory q =
             (if us = [] then shapesHistory p else (shapesHistory p)[i := last us])
         \<and> shapesHistory q ! i = (if us = [] then shapesHistory p ! i else last us)
         \<and> length (shapesHistory q) = length (shapesHistory p)
         \<and> take i (shapesHistory q) = take i (shapesHistory p)
         \<and> drop (i + 1) (shapesHistory q) = drop (i + 1) (shapesHistory p)
         \<and> shapesHistory r = take (i + 1) (shapesHistory q) @ [final]
         \<and> shapesHistory r =
             take i (shapesHistory p)
             @ [if us = [] then shapesHistory p ! i else last us, final]
         \<and> length (shapesHistory r) = i + 2
         \<and> shapesHistoryIndex r = i + 1
         \<and> shapes r = final
         \<and> (i = length (shapesHistory p) - 1 \<longrightarrow>
              length (shapesHistory r) = length (shapesHistory p) + 1)"
proof -
  define i where "i = shapesHistoryIndex p"
  define q where "q = updatesInPlace rebuild cur us p"
  define r where "r = handleShapesChange rebuild cur final True q"
  have lt: "i < length (shapesHistory p)"
    using ok by (simp add: page_ok_def i_def)
  have uf: "shapesHistoryIndex q = i"
    "shapesHistory q = (if us = [] then shapesHistory p else (shapesHistory p)[i := last us])"
    "pid q = cur"
    "shapes q = (if us = [] then shapes p else last us)"
    using updatesInPlace_facts[OF cur, of rebuild us] by (simp_all add: q_def i_def)
  have at: "shapesHistory q ! i = (if us = [] then shapesHistory p ! i else last us)"
    using lt by (simp add: uf(2))
  have len: "length (shapesHistory q) = length (shapesHistory p)"
    by (simp add: uf(2))
  have tk: "take i (shapesHistory q) = take i (shapesHistory p)"
    by (simp add: uf(2))
  have dr: "drop (i + 1) (shapesHistory q) = drop (i + 1) (shapesHistory p)"
    by (simp add: uf(2))
  have rh: "shapesHistory r = take (i + 1) (shapesHistory q) @ [final]"
    and ri: "shapesHistoryIndex r = length (take (i + 1) (shapesHistory q) @ [final]) - 1"
    and rs: "shapes r = final"
    using uf(1,3) by (simp_all add: r_def handleShapesChange_def Let_def)
  have tk1: "take (i + 1) (shapesHistory q)
      = take i (shapesHistory p) @ [if us = [] then shapesHistory p ! i else last us]"
  proof -
    have "i < length (shapesHistory q)" using lt len by simp
    then have "take (Suc i) (shapesHistory q) = take i (shapesHistory q) @ [shapesHistory q ! i]"
      by (rule take_Suc_conv_app_nth)
    then show ?thesis by (simp only: tk at Suc_eq_plus1)
  qed
  have rh': "shapesHistory r =
      take i (shapesHistory p) @ [if us = [] then shapesHistory p ! i else last us, final]"
    unfolding rh tk1 by simp
  have rl: "length (shapesHistory r) = i + 2"
    using lt len by (simp add: rh)
  have ri': "shapesHistoryIndex r = i + 1"
    using lt len by (simp add: ri)
  have last: "i = length (shapesHistory p) - 1 \<longrightarrow>
      length (shapesHistory r) = length (shapesHistory p) + 1"
    using lt rl by auto
  show ?thesis
    using uf(1) uf(4) uf(2) at len tk dr rh rh' rl ri' rs last
    unfolding Let_def i_def q_def r_def by blast
qed

theorem gesture_one_entry_witness:
  "pid (initialPage ''p'') = ''p'' \<and> page_ok (initialPage ''p'')
   \<and> shapesHistory (handleShapesChange (\<lambda>n s. s) ''p'' [exampleBubble] True
        (updatesInPlace (\<lambda>n s. s) ''p'' [[exampleText], [exampleBubble]] (initialPage ''p'')))
       = [[exampleBubble], [exampleBubble]]
   \<and> length (shapesHistory (handleShapesChange (\<lambda>n s. s) ''p'' [exampleBubble] True
        (updatesInPlace (\<lambda>n s. s) ''p'' [[exampleText], [exampleBubble]] (initialPage ''p''))))
       = length (shapesHistory (initialPage ''p'')) + 1"
proof -
  have h1: "pid (initialPage ''p'') = ''p''"
    by (simp add: initialPage_def)
  have h2: "page_ok (initialPage ''p'')"
    by (simp add: initialPage_def page_ok_def)
  note T = gesture_one_entry [OF h1 h2, of "\<lambda>n s. s" "[[exampleText], [exampleBubble]]" "[exampleBubble]"]
  have ev: "updatesInPlace (\<lambda>n s. s) ''p'' [[exampleText], [exampleBubble]] (initialPage ''p'')
      = \<lparr>pid = ''p'', shapes = [exampleBubble], shapesHistory = [[exampleBubble]],
         shapesHistoryIndex = 0, sceneDescription = []\<rparr>"
    by (simp add: updatesInPlace_def handleShapesChange_def initialPage_def Let_def)
  have i0: "shapesHistory (initialPage ''p'') = [[]]"
    by (simp add: initialPage_def)
  have c1: "shapesHistory (handleShapesChange (\<lambda>n s. s) ''p'' [exampleBubble] True
        (updatesInPlace (\<lambda>n s. s) ''p'' [[exampleText], [exampleBubble]] (initialPage ''p'')))
       = [[exampleBubble], [exampleBubble]]"
    unfolding ev by (simp add: handleShapesChange_def Let_def)
  show ?thesis
    using T h1 h2 c1 i0 by simp
qed

text \<open>
  The claim as stated fails when the gesture starts with a redo tail: after two commits
  and two undos the history has three entries and the index is 0; a gesture of one update
  and its commit leaves two entries, not four.
\<close>

theorem gesture_one_entry_counterexample:
  "length (shapesHistory pageAfterTwoUndos) = 3
   \<and> length (shapesHistory (handleShapesChange (\<lambda>n s. s) ''p'' [exampleBubble] True
        (updatesInPlace (\<lambda>n s. s) ''p'' [[exampleBubble]] pageAfterTwoUndos))) = 2
   \<and> length (shapesHistory (handleShapesChange (\<lambda>n s. s) ''p'' [exampleBubble] True
        (updatesInPlace (\<lambda>n s. s) ''p'' [[exampleBubble]] pageAfterTwoUndos)))
       \<noteq> length (shapesHistory pageAfterTwoUndos) + 1"
proof -
  have ev: "pageAfterTwoUndos =
      \<lparr>pid = ''p'', shapes = [],
       shapesHistory = [[], [examplePanel], [examplePanel, exampleText]],
       shapesHistoryIndex = 0, sceneDescription = []\<rparr>"
    by (simp add: pageAfterTwoUndos_def commits_def handleShapesChange_def handleUndo_def
        initialPage_def Let_def)
  show ?thesis
    unfolding ev
    by (simp add: updatesInPlace_def handleShapesChange_def Let_def)
qed

section \<open>Pointer-up: discarding small bubbles and panels\<close>

lemma find_fresh_last:
  "i \<notin> sid ` set S \<Longrightarrow> sid sh = i \<Longrightarrow> find (\<lambda>s. sid s = i) (S @ [sh]) = Some sh"
  by (induction S) auto

lemma filter_fresh_last:
  "i \<notin> sid ` set S \<Longrightarrow> sid sh = i \<Longrightarrow> filter (\<lambda>s. sid s \<noteq> i) (S @ [sh]) = S"
  by (induction S) auto

lemma moveCreating_fresh_last:
  "i \<notin> sid ` set S \<Longrightarrow> sid a = i \<Longrightarrow> sid sh = i \<Longrightarrow> \<not> isArrow a \<Longrightarrow>
   \<exists>sh'. moveCreating a pos (S @ [sh]) = S @ [sh'] \<and> sid sh' = i
      \<and> width sh' = Some \<bar>px pos - sx a\<bar> \<and> height sh' = Some \<bar>py pos - sy a\<bar>
      \<and> isPanel sh' = isPanel sh \<and> isBubble sh' = isBubble sh"
proof -
  assume fresh: "i \<notin> sid ` set S" and a: "sid a = i" and sh: "sid sh = i"
    and na: "\<not> isArrow a"
  have S: "map (\<lambda>s. if sid s \<noteq> i then s else f s) S = S" for f
    using fresh by (induction S) auto
  show ?thesis
    using a sh na
    by (cases "kind sh")
       (simp_all add: moveCreating_def Let_def S isPanel_def isBubble_def)
qed

text \<open>
  Claim C6. Pointer-up of a gesture (any action but panning and none) on the current page
  commits one list. When the first shape with the action's id is a bubble or a panel whose
  stored width or height is below 10, the committed list is the shape list without the shapes
  of that id, so the shape is not in it; otherwise the committed list is the shape list
  unchanged. A panel or bubble that the gesture created, under a fresh id, and that is below
  10 in width or height at pointer-up (as it is after a move that ends less than 10 from the
  start in x or in y), leaves the list as it was before the creation: no shape is added.
\<close>

theorem pointer_up_discards_small:
  assumes act: "actionTarget act = Some i" and cur: "pid p = cur"
  shows "let r = mouseUpPage rebuild cur act p in
           shapesHistory r = take (shapesHistoryIndex p + 1) (shapesHistory p) @ [shapes r]
         \<and> (\<forall>sh. find (\<lambda>s. sid s = i) (shapes p) = Some sh \<and> tooSmall sh \<longrightarrow>
               shapes r = filter (\<lambda>s. sid s \<noteq> sid sh) (shapes p) \<and> sh \<notin> set (shapes r))
         \<and> ((\<forall>sh. find (\<lambda>s. sid s = i) (shapes p) = Some sh \<longrightarrow> \<not> tooSmall sh) \<longrightarrow>
               shapes r = shapes p)
         \<and> (\<forall>S sh. shapes p = S @ [sh] \<and> i \<notin> sid ` set S \<and> sid sh = i \<and> tooSmall sh \<longrightarrow>
               shapes r = S)
         \<and> (\<forall>S a sh pos. shapes p = moveCreating a pos (S @ [sh]) \<and> i \<notin> sid ` set S
               \<and> sid a = i \<and> sid sh = i \<and> \<not> isArrow a \<and> (isPanel sh \<or> isBubble sh)
               \<and> (\<bar>px pos - sx a\<bar> < 10 \<or> \<bar>py pos - sy a\<bar> < 10) \<longrightarrow>
               shapes r = S)"
proof -
  define r where "r = mouseUpPage rebuild cur act p"
  define committed where "committed = the (handleMouseUp act (shapes p))"
  have hm: "handleMouseUp act (shapes p) = Some committed"
    using act by (simp add: handleMouseUp_def committed_def split: option.splits)
  have r: "r = handleShapesChange rebuild cur committed True p"
    by (simp add: r_def mouseUpPage_def hm)
  have rs: "shapes r = committed"
    and rh: "shapesHistory r = take (shapesHistoryIndex p + 1) (shapesHistory p) @ [committed]"
    using cur by (simp_all add: r handleShapesChange_def Let_def)
  have small: "committed = filter (\<lambda>s. sid s \<noteq> sid sh) (shapes p) \<and> sh \<notin> set committed"
    if "find (\<lambda>s. sid s = i) (shapes p) = Some sh" "tooSmall sh" for sh
    using hm act that by (auto simp: handleMouseUp_def)
  have other: "committed = shapes p"
    if "\<forall>sh. find (\<lambda>s. sid s = i) (shapes p) = Some sh \<longrightarrow> \<not> tooSmall sh"
    using hm act that by (auto simp: handleMouseUp_def split: option.splits if_splits)
  have created: "committed = S"
    if "shapes p = S @ [sh]" "i \<notin> sid ` set S" "sid sh = i" "tooSmall sh" for S sh
    using small[of sh] that find_fresh_last[of i S sh] filter_fresh_last[of i S sh] by simp
  have moved: "committed = S"
    if m: "shapes p = moveCreating a pos (S @ [sh])" and f: "i \<notin> sid ` set S"
      and a: "sid a = i" and s: "sid sh = i" and na: "\<not> isArrow a"
      and k: "isPanel sh \<or> isBubble sh"
      and d: "\<bar>px pos - sx a\<bar> < 10 \<or> \<bar>py pos - sy a\<bar> < 10" for S a sh pos
  proof -
    from moveCreating_fresh_last[OF f a s na, of pos] obtain sh' where
      sh': "moveCreating a pos (S @ [sh]) = S @ [sh']" "sid sh' = i"
        "width sh' = Some \<bar>px pos - sx a\<bar>" "height sh' = Some \<bar>py pos - sy a\<bar>"
        "isPanel sh' = isPanel sh" "isBubble sh' = isBubble sh"
      by blast
    have "tooSmall sh'"
      using k d sh'(3,4,5,6) by (auto simp: tooSmall_def below10_def)
    then show ?thesis
      using created[of S sh'] m sh'(1,2) f by simp
  qed
  show ?thesis
    unfolding Let_def r_def[symmetric]
    using rh small other created moved unfolding rs by blast
qed

theorem pointer_up_discards_small_witness:
  "actionTarget (Creating (newPanel ''7'' (pt 50 50))) = Some ''7''
   \<and> pid (initialPage ''p'') = ''p''
   \<and> shapes (mouseUpPage (\<lambda>n s. s) ''p'' (Creating (newPanel ''7'' (pt 50 50)))
        (handleShapesChange (\<lambda>n s. s) ''p''
           (moveCreating (newPanel ''7'' (pt 50 50)) (pt 56 200) [newPanel ''7'' (pt 50 50)])
           False (initialPage ''p''))) = []"
proof -
  let ?a = "newPanel ''7'' (pt 50 50)"
  let ?p = "handleShapesChange (\<lambda>n s. s) ''p'' (moveCreating ?a (pt 56 200) [?a]) False
              (initialPage ''p'')"
  have h1: "actionTarget (Creating ?a) = Some ''7''"
    by (simp add: newPanel_def)
  have h0: "pid (initialPage ''p'') = ''p''"
    by (simp add: initialPage_def)
  have h2: "pid ?p = ''p''"
    by (simp add: handleShapesChange_def initialPage_def Let_def)
  have sp: "shapes ?p = moveCreating ?a (pt 56 200) ([] @ [?a])"
    by (simp add: handleShapesChange_def initialPage_def Let_def)
  have side: "''7'' \<notin> sid ` set ([] :: shape list)" "sid ?a = ''7''" "isPanel ?a \<or> isBubble ?a"
    "\<bar>px (pt 56 200) - sx ?a\<bar> < 10 \<or> \<bar>py (pt 56 200) - sy ?a\<bar> < 10" "\<not> isArrow ?a"
    by (simp_all add: newPanel_def isPanel_def isArrow_def pt_def)
  from pointer_up_discards_small [OF h1 h2, of "\<lambda>n s. s"]
  have "\<forall>S a sh pos. shapes ?p = moveCreating a pos (S @ [sh]) \<and> ''7'' \<notin> sid ` set S
          \<and> sid a = ''7'' \<and> sid sh = ''7'' \<and> \<not> isArrow a \<and> (isPanel sh \<or> isBubble sh)
          \<and> (\<bar>px pos - sx a\<bar> < 10 \<or> \<bar>py pos - sy a\<bar> < 10) \<longrightarrow>
          shapes (mouseUpPage (\<lambda>n s. s) ''p'' (Creating ?a) ?p) = S"
    unfolding Let_def by blast
  then have "shapes (mouseUpPage (\<lambda>n s. s) ''p'' (Creating ?a) ?p) = []"
    using sp side by blast
  then show ?thesis
    using h1 h0 by simp
qed

section \<open>Render order\<close>

lemma compositorOrder_eq:
  "compositorOrder incl xs =
     filter isPanel xs @ (if incl then filter isImage xs else []) @ filter isBubble xs
     @ filter isText xs"
  by (simp add: compositorOrder_def compositorVisits_def map_snd_enumerate)

lemma sorted_map_const: "(\<forall>x\<in>set ys. f x = (c::nat)) \<Longrightarrow> sorted (map f ys)"
  by (induction ys) auto

lemma shapeOrder_isPanel: "isPanel s \<Longrightarrow> shapeOrder s = 10"
  by (cases "kind s") (simp_all add: shapeOrder_def isPanel_def)

lemma shapeOrder_isImage: "isImage s \<Longrightarrow> shapeOrder s = 30"
  by (cases "kind s") (simp_all add: shapeOrder_def isImage_def)

lemma shapeOrder_isBubble: "isBubble s \<Longrightarrow> shapeOrder s = 40"
  by (cases "kind s") (simp_all add: shapeOrder_def isBubble_def)

lemma shapeOrder_isText: "isText s \<Longrightarrow> shapeOrder s = 50"
  by (cases "kind s") (simp_all add: shapeOrder_def isText_def)

lemma sorted_compositorOrder: "sorted (map shapeOrder (compositorOrder incl xs))"
proof -
  have p: "sorted (map shapeOrder (filter isPanel xs))"
    by (rule sorted_map_const[where c = 10]) (simp add: shapeOrder_isPanel)
  have i: "sorted (map shapeOrder (filter isImage xs))"
    by (rule sorted_map_const[where c = 30]) (simp add: shapeOrder_isImage)
  have b: "sorted (map shapeOrder (filter isBubble xs))"
    by (rule sorted_map_const[where c = 40]) (simp add: shapeOrder_isBubble)
  have t: "sorted (map shapeOrder (filter isText xs))"
    by (rule sorted_map_const[where c = 50]) (simp add: shapeOrder_isText)
  show ?thesis
    using p i b t
    by (auto simp: compositorOrder_eq sorted_append
        shapeOrder_isPanel shapeOrder_isImage shapeOrder_isBubble shapeOrder_isText)
qed

lemma kinds_exclusive:
  "(isImage s \<and> isPanel s) = False" "(isBubble s \<and> isPanel s) = False"
  "(isText s \<and> isPanel s) = False" "(isPanel s \<and> isImage s) = False"
  "(isBubble s \<and> isImage s) = False" "(isText s \<and> isImage s) = False"
  "(isPanel s \<and> isBubble s) = False" "(isImage s \<and> isBubble s) = False"
  "(isText s \<and> isBubble s) = False" "(isPanel s \<and> isText s) = False"
  "(isImage s \<and> isText s) = False" "(isBubble s \<and> isText s) = False"
  by (cases "kind s"; simp add: isPanel_def isImage_def isBubble_def isText_def)+

text \<open>
  Claim C3, as amended. Both renderers draw layer by layer, by shape type, and inside one
  type in list order. On screen the drawn sequence \<open>sortedShapes\<close> is ordered by the layer
  number of \<open>shapeOrder\<close> (panel, drawing, arrow, image, bubble, text) and the shapes of each
  layer keep their list order. The compositor visits panels, then images when characters are
  requested, then bubbles, then texts, and the shapes of each of these types keep their list
  order. So of two shapes of one drawn type the later one in the list is drawn on top; across
  types the layer decides, not the position in the list.
\<close>

theorem render_order_by_layer:
  "sorted (map shapeOrder (sortedShapes xs))
   \<and> (\<forall>k. filter (\<lambda>s. shapeOrder s = k) (sortedShapes xs) = filter (\<lambda>s. shapeOrder s = k) xs)
   \<and> sorted (map shapeOrder (compositorOrder incl xs))
   \<and> filter isPanel (compositorOrder incl xs) = filter isPanel xs
   \<and> filter isImage (compositorOrder True xs) = filter isImage xs
   \<and> filter isBubble (compositorOrder incl xs) = filter isBubble xs
   \<and> filter isText (compositorOrder incl xs) = filter isText xs"
proof -
  have a: "sorted (map shapeOrder (sortedShapes xs))"
    by (simp add: sortedShapes_def)
  have b: "\<forall>k. filter (\<lambda>s. shapeOrder s = k) (sortedShapes xs) = filter (\<lambda>s. shapeOrder s = k) xs"
    by (simp add: sortedShapes_def sort_key_stable)
  have c: "filter isPanel (compositorOrder incl xs) = filter isPanel xs"
    "filter isImage (compositorOrder True xs) = filter isImage xs"
    "filter isBubble (compositorOrder incl xs) = filter isBubble xs"
    "filter isText (compositorOrder incl xs) = filter isText xs"
    by (simp_all add: compositorOrder_eq kinds_exclusive)
  show ?thesis
    using a b sorted_compositorOrder c by blast
qed

theorem render_order_by_layer_witness:
  "sortedShapes [exampleBubble, examplePanel, exampleText, exampleArrow]
     = [examplePanel, exampleArrow, exampleBubble, exampleText]
   \<and> sorted (map shapeOrder (sortedShapes [exampleBubble, examplePanel, exampleText, exampleArrow]))
   \<and> filter isText (compositorOrder True [exampleBubble, examplePanel, exampleText, exampleArrow])
     = [exampleText]"
proof -
  have ev: "sortedShapes [exampleBubble, examplePanel, exampleText, exampleArrow]
     = [examplePanel, exampleArrow, exampleBubble, exampleText]"
    by (simp add: sortedShapes_def shapeOrder_def exampleBubble_def examplePanel_def
        exampleText_def exampleArrow_def)
  have ft: "filter isText [exampleBubble, examplePanel, exampleText, exampleArrow] = [exampleText]"
    by (simp add: isText_def exampleBubble_def examplePanel_def exampleText_def exampleArrow_def)
  show ?thesis
    using render_order_by_layer [of "[exampleBubble, examplePanel, exampleText, exampleArrow]" True]
      ev ft by simp
qed

text \<open>
  The claim as stated fails: a text that comes before a panel in the list is drawn after
  it, on top of it, on screen and by the compositor.
\<close>

theorem render_order_counterexample:
  "sortedShapes [exampleText, examplePanel] = [examplePanel, exampleText]
   \<and> sortedShapes [exampleText, examplePanel] \<noteq> [exampleText, examplePanel]
   \<and> compositorOrder True [exampleText, examplePanel] = [examplePanel, exampleText]
   \<and> compositorOrder True [exampleText, examplePanel] \<noteq> [exampleText, examplePanel]"
  by (simp add: sortedShapes_def shapeOrder_def compositorOrder_eq examplePanel_def
      exampleText_def isPanel_def isImage_def isBubble_def isText_def)

section \<open>Compositor\<close>

lemma layout_size:
  "imageWidth (getLayoutAsImage cfg incl chars xs) = fst cfg
   \<and> imageHeight (getLayoutAsImage cfg incl chars xs) = snd cfg"
  by (simp add: getLayoutAsImage_def)

lemma drawn_kinds:
  "(\<not> isDrawing s \<and> \<not> isArrow s \<and> isPanel s) = isPanel s"
  "(\<not> isDrawing s \<and> \<not> isArrow s \<and> isImage s) = isImage s"
  "(\<not> isDrawing s \<and> \<not> isArrow s \<and> isBubble s) = isBubble s"
  "(\<not> isDrawing s \<and> \<not> isArrow s \<and> isText s) = isText s"
  by (cases "kind s";
      simp add: isPanel_def isImage_def isBubble_def isText_def isDrawing_def isArrow_def)+

text \<open>
  Claim C4 fails on the code: the compositor has loops for panels, images, bubbles and
  texts only. A drawing and an arrow add no element: the image of a page with the example
  drawing and the example arrow is the image of the empty page, and in general the image of
  a shape list is the image of the list without its drawings and arrows.
\<close>

theorem compositor_omits_drawings_and_arrows:
  "getLayoutAsImage (595, 842) True chars [exampleDrawing, exampleArrow]
     = getLayoutAsImage (595, 842) True chars []
   \<and> elements (getLayoutAsImage (595, 842) True chars [exampleDrawing, exampleArrow]) = []
   \<and> getLayoutAsImage cfg incl chars xs
     = getLayoutAsImage cfg incl chars (filter (\<lambda>s. \<not> isDrawing s \<and> \<not> isArrow s) xs)"
proof -
  have a: "compositorVisits True [exampleDrawing, exampleArrow] = []"
    by (simp add: compositorVisits_def exampleDrawing_def exampleArrow_def
        isPanel_def isImage_def isBubble_def isText_def)
  have b: "compositorVisits incl (filter (\<lambda>s. \<not> isDrawing s \<and> \<not> isArrow s) xs)
      = compositorVisits incl xs"
    by (simp add: compositorVisits_def drawn_kinds)
  have c: "compositorVisits True [] = []"
    by (simp add: compositorVisits_def)
  show ?thesis
    by (simp add: getLayoutAsImage_def a b c)
qed

section \<open>Panel bounding box\<close>

lemma drag_panel_box_tight:
  assumes "kind s = Panel ps" and "ps \<noteq> []"
  shows "panelBoxTight (dragShape startOffset pos s)"
  using assms
  by (simp add: panelBoxTight_def storedBBox_def tightBBox_def dragShape_def Let_def
      Math_min_Min Math_max_Max image_image)

lemma midpoint_in_box:
  fixes A :: "real set"
  assumes "finite A" and "a \<in> A" and "b \<in> A"
  shows "Min (insert ((a + b) / 2) A) = Min A \<and> Max (insert ((a + b) / 2) A) = Max A"
proof -
  have ne: "A \<noteq> {}" using assms(2) by auto
  have "Min A \<le> a" "Min A \<le> b" "a \<le> Max A" "b \<le> Max A"
    using assms by simp_all
  then have "Min A \<le> (a + b) / 2" "(a + b) / 2 \<le> Max A"
    by simp_all
  then show ?thesis
    using assms(1) ne by (simp add: min_def max_def)
qed

lemma add_vertex_keeps_box_tight:
  assumes k: "kind sh = Panel ps" and e: "edgeIndex < length ps" and t: "panelBoxTight sh"
  shows "\<exists>sh'. addPanelVertex sh edgeIndex [sh] = [sh'] \<and> panelBoxTight sh'"
proof -
  define q where "q = ps ! ((edgeIndex + 1) mod length ps)"
  define m where "m = \<lparr>px = (px (ps ! edgeIndex) + px q) / 2, py = (py (ps ! edgeIndex) + py q) / 2\<rparr>"
  define ps' where "ps' = take (edgeIndex + 1) ps @ [m] @ drop (edgeIndex + 1) ps"
  have "0 < length ps"
    using e by auto
  then have "(edgeIndex + 1) mod length ps < length ps"
    by (rule mod_less_divisor)
  then have mem: "ps ! edgeIndex \<in> set ps" "q \<in> set ps"
    using e unfolding q_def by (simp_all only: nth_mem)
  have "set (take (edgeIndex + 1) ps) \<union> set (drop (edgeIndex + 1) ps) = set ps"
    using set_append[of "take (edgeIndex + 1) ps" "drop (edgeIndex + 1) ps"]
    by (simp only: append_take_drop_id)
  then have set': "set ps' = insert m (set ps)"
    by (auto simp: ps'_def)
  have x: "Min (px ` set ps') = Min (px ` set ps) \<and> Max (px ` set ps') = Max (px ` set ps)"
    using midpoint_in_box[of "px ` set ps" "px (ps ! edgeIndex)" "px q"] mem
    by (simp add: set' m_def)
  have y: "Min (py ` set ps') = Min (py ` set ps) \<and> Max (py ` set ps') = Max (py ` set ps)"
    using midpoint_in_box[of "py ` set ps" "py (ps ! edgeIndex)" "py q"] mem
    by (simp add: set' m_def)
  have tb: "tightBBox ps' = tightBBox ps"
    by (simp add: tightBBox_def x y)
  have res: "addPanelVertex sh edgeIndex [sh] = [sh\<lparr>kind := Panel ps'\<rparr>]"
    using k by (simp add: addPanelVertex_def Let_def isPanel_def ps'_def m_def q_def)
  have "panelBoxTight (sh\<lparr>kind := Panel ps'\<rparr>)"
    using t k by (auto simp: panelBoxTight_def storedBBox_def tb split: option.splits)
  then show ?thesis
    using res by blast
qed

text \<open>
  Claim C9 fails on the code. Dragging one vertex (case \<open>editingPanelVertex\<close>) writes the
  vertex list only: the example panel, whose stored box \<open>(0, 0, 100, 100)\<close> is the tight box
  of its square, keeps that stored box after its first vertex went to \<open>(-50, -50)\<close>, while
  the tight box of the vertices is \<open>(-50, -50, 150, 150)\<close>. Dragging the whole panel does
  compute the box from the vertices, and the drag reads the stored origin: started on the
  edited panel, a move to the very point where the pointer went down shifts every vertex
  by \<open>(-50, -50)\<close>.
\<close>

theorem vertex_edit_leaves_stale_box:
  "panelBoxTight examplePanel
   \<and> moveEditingPanelVertex ''1'' 0 (pt (-50) (-50)) [examplePanel] = [editedPanel]
   \<and> kind editedPanel = Panel [pt (-50) (-50), pt 100 0, pt 100 100, pt 0 100]
   \<and> storedBBox editedPanel = Some \<lparr>bbx = 0, bby = 0, bbw = 100, bbh = 100\<rparr>
   \<and> tightBBox [pt (-50) (-50), pt 100 0, pt 100 100, pt 0 100]
       = \<lparr>bbx = -50, bby = -50, bbw = 150, bbh = 150\<rparr>
   \<and> \<not> panelBoxTight editedPanel
   \<and> startDragging editedPanel (pt 10 10) = Dragging ''1'' (pt 60 60)
   \<and> kind (hd (moveDragging ''1'' (pt 60 60) (pt 10 10) [editedPanel]))
       = Panel [pt (-100) (-100), pt 50 (-50), pt 50 50, pt (-50) 50]"
proof -
  have e: "editedPanel =
      \<lparr>sid = ''1'', sx = 0, sy = 0, width = Some 100, height = Some 100,
       kind = Panel [pt (-50) (-50), pt 100 0, pt 100 100, pt 0 100]\<rparr>"
    by (simp add: editedPanel_def moveEditingPanelVertex_def examplePanel_def)
  have t0: "tightBBox [pt 0 0, pt 100 0, pt 100 100, pt 0 100]
      = \<lparr>bbx = 0, bby = 0, bbw = 100, bbh = 100\<rparr>"
    by (simp add: tightBBox_def pt_def)
  have t1: "tightBBox [pt (-50) (-50), pt 100 0, pt 100 100, pt 0 100]
      = \<lparr>bbx = -50, bby = -50, bbw = 150, bbh = 150\<rparr>"
    by (simp add: tightBBox_def pt_def)
  have a: "panelBoxTight examplePanel"
    by (simp add: panelBoxTight_def storedBBox_def examplePanel_def t0)
  have b: "moveEditingPanelVertex ''1'' 0 (pt (-50) (-50)) [examplePanel] = [editedPanel]"
    by (simp add: editedPanel_def moveEditingPanelVertex_def examplePanel_def)
  have c: "storedBBox editedPanel = Some \<lparr>bbx = 0, bby = 0, bbw = 100, bbh = 100\<rparr>"
    by (simp add: e storedBBox_def)
  have d: "\<not> panelBoxTight editedPanel"
    by (simp add: panelBoxTight_def e storedBBox_def t1)
  have f: "startDragging editedPanel (pt 10 10) = Dragging ''1'' (pt 60 60)"
    by (simp add: startDragging_def getShapeBBox_def pointsBBox_def e pt_def)
  have g: "kind (hd (moveDragging ''1'' (pt 60 60) (pt 10 10) [editedPanel]))
       = Panel [pt (-100) (-100), pt 50 (-50), pt 50 50, pt (-50) 50]"
    by (simp add: moveDragging_def dragShape_def e pt_def shiftPoint_def Let_def)
  show ?thesis
    using a b c d f g t1 by (simp add: e)
qed

section \<open>Skeleton poses follow their image\<close>

lemma skeletonOf_Some:
  "skeletonOf s = Some d \<Longrightarrow>
   \<exists>href characterId panelIndex preset comment.
     kind s = Image href characterId panelIndex (Some (SkeletonPose preset d comment))"
  by (auto simp: skeletonOf_def split: shapeKind.splits option.splits pose.splits)

text \<open>
  Claim C5. For an image shape with a skeleton pose: a drag moves every joint by the very
  offset by which it moves the origin of the shape; a resize, from the shape \<open>orig\<close> recorded
  at the start of the gesture (an image with a skeleton pose and positive width and height),
  gives the shape the new box and sends every joint \<open>p\<close> of the recorded pose to
  new origin + (\<open>p\<close> - recorded origin) * (new size / recorded size), in each coordinate.
  The joints keep their names and their order.
\<close>

theorem skeleton_follows_image:
  assumes s: "skeletonOf s = Some d"
    and orig: "skeletonOf orig = Some od"
    and w: "width orig = Some ow" and h: "height orig = Some oh"
    and pos: "0 < ow" "0 < oh"
  shows "(let s' = dragShape startOffset pos s;
              dx = sx s' - sx s; dy = sy s' - sy s in
            sx s' = px pos - px startOffset \<and> sy s' = py pos - py startOffset
          \<and> skeletonOf s' = Some (map (\<lambda>(key, p). (key, \<lparr>px = px p + dx, py = py p + dy\<rparr>)) d))
       \<and> (let b = resizeBox handle orig rpos;
              s' = resizeShape b orig s in
            sx s' = bbx b \<and> sy s' = bby b \<and> width s' = Some (bbw b) \<and> height s' = Some (bbh b)
          \<and> skeletonOf s' =
              Some (map (\<lambda>(key, p). (key, \<lparr>px = sx s' + (px p - sx orig) * (bbw b / ow),
                                             py = sy s' + (py p - sy orig) * (bbh b / oh)\<rparr>)) od))"
proof -
  from skeletonOf_Some[OF s] obtain href characterId panelIndex preset comment where
    ks: "kind s = Image href characterId panelIndex (Some (SkeletonPose preset d comment))"
    by blast
  from skeletonOf_Some[OF orig] obtain href' characterId' panelIndex' preset' comment' where
    ko: "kind orig = Image href' characterId' panelIndex' (Some (SkeletonPose preset' od comment'))"
    by blast
  have drag: "let s' = dragShape startOffset pos s;
              dx = sx s' - sx s; dy = sy s' - sy s in
            sx s' = px pos - px startOffset \<and> sy s' = py pos - py startOffset
          \<and> skeletonOf s' = Some (map (\<lambda>(key, p). (key, \<lparr>px = px p + dx, py = py p + dy\<rparr>)) d)"
    by (simp add: dragShape_def Let_def ks skeletonOf_def shiftPoint_def)
  have resize: "let b = resizeBox handle orig rpos;
              s' = resizeShape b orig s in
            sx s' = bbx b \<and> sy s' = bby b \<and> width s' = Some (bbw b) \<and> height s' = Some (bbh b)
          \<and> skeletonOf s' =
              Some (map (\<lambda>(key, p). (key, \<lparr>px = sx s' + (px p - sx orig) * (bbw b / ow),
                                             py = sy s' + (py p - sy orig) * (bbh b / oh)\<rparr>)) od)"
    using pos by (simp add: resizeShape_def Let_def ks ko w h skeletonOf_def rescalePoint_def)
  show ?thesis
    using drag resize by blast
qed

theorem skeleton_follows_image_witness:
  "skeletonOf exampleImage = Some [(''head'', pt 175 137.5), (''neck'', pt 175 175)]
   \<and> width exampleImage = Some 150 \<and> height exampleImage = Some 250
   \<and> (0::real) < 150 \<and> (0::real) < 250
   \<and> skeletonOf (dragShape (pt 10 10) (pt 120 130) exampleImage)
       = Some [(''head'', pt 185 157.5), (''neck'', pt 185 195)]
   \<and> skeletonOf (resizeShape (resizeBox ''bottom-right'' exampleImage (pt 400 600)) exampleImage
        exampleImage)
       = Some [(''head'', pt 250 175), (''neck'', pt 250 250)]"
proof -
  have s: "skeletonOf exampleImage = Some [(''head'', pt 175 137.5), (''neck'', pt 175 175)]"
    by (simp add: skeletonOf_def exampleImage_def)
  have w: "width exampleImage = Some 150" and h: "height exampleImage = Some 250"
    by (simp_all add: exampleImage_def)
  have p: "(0::real) < 150" "(0::real) < 250"
    by simp_all
  have d1: "sx (dragShape (pt 10 10) (pt 120 130) exampleImage) = 110"
    "sy (dragShape (pt 10 10) (pt 120 130) exampleImage) = 120"
    by (simp_all add: dragShape_def exampleImage_def pt_def Let_def)
  have b: "resizeBox ''bottom-right'' exampleImage (pt 400 600)
      = \<lparr>bbx = 100, bby = 100, bbw = 300, bbh = 500\<rparr>"
    by (simp add: resizeBox_def exampleImage_def pt_def Let_def)
  have e: "sx exampleImage = 100" "sy exampleImage = 100"
    by (simp_all add: exampleImage_def)
  note T = skeleton_follows_image [OF s s w h p, of "pt 10 10" "pt 120 130" "''bottom-right''"
      "pt 400 600", unfolded Let_def]
  have "skeletonOf (dragShape (pt 10 10) (pt 120 130) exampleImage)
       = Some [(''head'', pt 185 157.5), (''neck'', pt 185 195)]"
    using T by (simp add: d1[unfolded pt_def] e pt_def)
  moreover have "skeletonOf (resizeShape (resizeBox ''bottom-right'' exampleImage (pt 400 600))
        exampleImage exampleImage)
       = Some [(''head'', pt 250 175), (''neck'', pt 250 250)]"
    using T by (simp add: b[unfolded pt_def] e pt_def)
  ultimately show ?thesis
    using s w h by simp
qed

section \<open>Resize keeps at least 20 by 20\<close>

lemma sid_resizeShape: "sid (resizeShape b orig s) = sid s"
  by (simp add: resizeShape_def Let_def
      split: shapeKind.splits option.splits pose.splits)

lemma box_resizeShape:
  "width (resizeShape b orig s) = Some (bbw b) \<and> height (resizeShape b orig s) = Some (bbh b)"
  by (simp add: resizeShape_def Let_def
      split: shapeKind.splits option.splits pose.splits)

text \<open>
  Claim C10. A resize by any of the four corner handles, for any recorded shape and any
  pointer position, computes a box of width and height at least 20, and every shape of the
  resized id in the new list has exactly that width and height.
\<close>

theorem resize_at_least_20:
  assumes "handle \<in> {''top-left'', ''top-right'', ''bottom-left'', ''bottom-right''}"
  shows "20 \<le> bbw (resizeBox handle orig pos) \<and> 20 \<le> bbh (resizeBox handle orig pos)
       \<and> (\<forall>s' \<in> set (moveResizing shapeId handle orig pos shps). sid s' = shapeId \<longrightarrow>
            width s' = Some (bbw (resizeBox handle orig pos))
          \<and> height s' = Some (bbh (resizeBox handle orig pos)))"
proof -
  have box: "20 \<le> bbw (resizeBox handle orig pos) \<and> 20 \<le> bbh (resizeBox handle orig pos)"
    using assms by (auto simp: resizeBox_def Let_def)
  have each: "width s' = Some (bbw (resizeBox handle orig pos))
      \<and> height s' = Some (bbh (resizeBox handle orig pos))"
    if mem: "s' \<in> set (moveResizing shapeId handle orig pos shps)" and i: "sid s' = shapeId" for s'
  proof -
    from mem have "\<exists>s. s' = (if sid s \<noteq> shapeId then s
               else resizeShape (resizeBox handle orig pos) orig s)"
      unfolding moveResizing_def set_map by (rule imageE) (rule exI)
    then obtain s where
      s: "s' = (if sid s \<noteq> shapeId then s
               else resizeShape (resizeBox handle orig pos) orig s)" ..
    have "sid s = shapeId"
    proof (rule ccontr)
      assume n: "sid s \<noteq> shapeId"
      then have "s' = s" using s by simp
      then show False using n i by simp
    qed
    then have "s' = resizeShape (resizeBox handle orig pos) orig s"
      using s by simp
    then show ?thesis
      using box_resizeShape[of "resizeBox handle orig pos" orig s] by simp
  qed
  show ?thesis
  proof (intro conjI ballI impI)
    show "20 \<le> bbw (resizeBox handle orig pos)" using box by simp
    show "20 \<le> bbh (resizeBox handle orig pos)" using box by simp
  next
    fix s' assume "s' \<in> set (moveResizing shapeId handle orig pos shps)" "sid s' = shapeId"
    then show "width s' = Some (bbw (resizeBox handle orig pos))" using each by blast
  next
    fix s' assume "s' \<in> set (moveResizing shapeId handle orig pos shps)" "sid s' = shapeId"
    then show "height s' = Some (bbh (resizeBox handle orig pos))" using each by blast
  qed
qed

theorem resize_at_least_20_witness:
  "''top-left'' \<in> {''top-left'', ''top-right'', ''bottom-left'', ''bottom-right''}
   \<and> resizeBox ''top-left'' exampleBubble (pt 155 95) = \<lparr>bbx = 140, bby = 80, bbw = 20, bbh = 20\<rparr>
   \<and> 20 \<le> bbw (resizeBox ''top-left'' exampleBubble (pt 155 95))
   \<and> 20 \<le> bbh (resizeBox ''top-left'' exampleBubble (pt 155 95))"
proof -
  have m: "''top-left'' \<in> {''top-left'', ''top-right'', ''bottom-left'', ''bottom-right''}"
    by simp
  have b: "resizeBox ''top-left'' exampleBubble (pt 155 95)
      = \<lparr>bbx = 140, bby = 80, bbw = 20, bbh = 20\<rparr>"
    by (simp add: resizeBox_def exampleBubble_def pt_def Let_def)
  note T = resize_at_least_20 [OF m, of exampleBubble "pt 155 95" "''5''" "[exampleBubble]"]
  from T have "20 \<le> bbw (resizeBox ''top-left'' exampleBubble (pt 155 95))"
    by (rule conjunct1)
  moreover from T have "20 \<le> bbh (resizeBox ''top-left'' exampleBubble (pt 155 95))"
    by (rule conjunct1[OF conjunct2])
  ultimately show ?thesis
    using m b by (intro conjI)
qed

section \<open>Zoom about the cursor\<close>

lemma zoom_algebra:
  fixes c t s s' :: real
  assumes "s \<noteq> 0" and "s' \<noteq> 0"
  shows "(c - (c - (c - t) * (s' / s))) / s' = (c - t) / s"
  using assms by (simp add: field_simps)

lemma clamp_bounds:
  fixes v :: real
  shows "1 / 10 \<le> max (1 / 10) (min v 10) \<and> max (1 / 10) (min v 10) \<le> 10"
  by auto

text \<open>
  Claim C7. For a view transform of non-zero scale (the scale of every view transform the
  editor builds is positive): the wheel multiplies the scale by 1.1 when \<open>deltaY < 0\<close> and
  divides it by 1.1 otherwise, the buttons multiply or divide it by 1.25; the result is
  clamped to the interval from 0.1 to 10; the new translation is
  cursor - (cursor - old translation) * (new scale / old scale), the cursor of the buttons
  being the centre of the viewport; and the cursor converts to the same document point
  before and after the zoom.
\<close>

theorem zoom_keeps_cursor_point:
  assumes "scale vt \<noteq> 0"
  shows "(let z = handleWheel deltaY mouseX mouseY vt;
              cursor = \<lparr>px = mouseX, py = mouseY\<rparr> in
            scale z = max (1 / 10)
              (min (if deltaY < 0 then scale vt * (11 / 10) else scale vt / (11 / 10)) 10)
          \<and> 1 / 10 \<le> scale z \<and> scale z \<le> 10
          \<and> vx z = mouseX - (mouseX - vx vt) * (scale z / scale vt)
          \<and> vy z = mouseY - (mouseY - vy vt) * (scale z / scale vt)
          \<and> screenToDocument z cursor = screenToDocument vt cursor)
       \<and> (let z = zoom dir viewWidth viewHeight vt;
              cursor = \<lparr>px = viewWidth / 2, py = viewHeight / 2\<rparr> in
            scale z = max (1 / 10)
              (min (if dir = ZoomIn then scale vt * (5 / 4) else scale vt / (5 / 4)) 10)
          \<and> 1 / 10 \<le> scale z \<and> scale z \<le> 10
          \<and> vx z = viewWidth / 2 - (viewWidth / 2 - vx vt) * (scale z / scale vt)
          \<and> vy z = viewHeight / 2 - (viewHeight / 2 - vy vt) * (scale z / scale vt)
          \<and> screenToDocument z cursor = screenToDocument vt cursor)"
proof -
  define z where "z = handleWheel deltaY mouseX mouseY vt"
  define y where "y = zoom dir viewWidth viewHeight vt"
  have zs: "scale z = max (1 / 10)
      (min (if deltaY < 0 then scale vt * (11 / 10) else scale vt / (11 / 10)) 10)"
    and zx: "vx z = mouseX - (mouseX - vx vt) * (scale z / scale vt)"
    and zy: "vy z = mouseY - (mouseY - vy vt) * (scale z / scale vt)"
    by (simp_all add: z_def handleWheel_def Let_def)
  have ys: "scale y = max (1 / 10)
      (min (if dir = ZoomIn then scale vt * (5 / 4) else scale vt / (5 / 4)) 10)"
    and yx: "vx y = viewWidth / 2 - (viewWidth / 2 - vx vt) * (scale y / scale vt)"
    and yy: "vy y = viewHeight / 2 - (viewHeight / 2 - vy vt) * (scale y / scale vt)"
    by (simp_all add: y_def zoom_def Let_def)
  have zb: "1 / 10 \<le> scale z \<and> scale z \<le> 10"
    unfolding zs by (rule clamp_bounds)
  have yb: "1 / 10 \<le> scale y \<and> scale y \<le> 10"
    unfolding ys by (rule clamp_bounds)
  have zn: "scale z \<noteq> 0" and yn: "scale y \<noteq> 0"
    using zb yb by auto
  have zdx: "(mouseX - vx z) / scale z = (mouseX - vx vt) / scale vt"
    unfolding zx by (rule zoom_algebra[OF assms zn])
  have zdy: "(mouseY - vy z) / scale z = (mouseY - vy vt) / scale vt"
    unfolding zy by (rule zoom_algebra[OF assms zn])
  have zd: "screenToDocument z \<lparr>px = mouseX, py = mouseY\<rparr>
      = screenToDocument vt \<lparr>px = mouseX, py = mouseY\<rparr>"
    using zdx zdy by (simp add: screenToDocument_def)
  have ydx: "(viewWidth / 2 - vx y) / scale y = (viewWidth / 2 - vx vt) / scale vt"
    unfolding yx by (rule zoom_algebra[OF assms yn])
  have ydy: "(viewHeight / 2 - vy y) / scale y = (viewHeight / 2 - vy vt) / scale vt"
    unfolding yy by (rule zoom_algebra[OF assms yn])
  have yd: "screenToDocument y \<lparr>px = viewWidth / 2, py = viewHeight / 2\<rparr>
      = screenToDocument vt \<lparr>px = viewWidth / 2, py = viewHeight / 2\<rparr>"
    using ydx ydy by (simp add: screenToDocument_def)
  show ?thesis
    unfolding Let_def z_def[symmetric] y_def[symmetric]
    using zs zb zx zy zd ys yb yx yy yd by blast
qed

theorem zoom_keeps_cursor_point_witness:
  "scale \<lparr>scale = 1, vx = 20, vy = 30\<rparr> \<noteq> 0
   \<and> handleWheel (-1) 120 80 \<lparr>scale = 1, vx = 20, vy = 30\<rparr> = \<lparr>scale = 11 / 10, vx = 10, vy = 25\<rparr>
   \<and> screenToDocument (handleWheel (-1) 120 80 \<lparr>scale = 1, vx = 20, vy = 30\<rparr>) \<lparr>px = 120, py = 80\<rparr>
       = \<lparr>px = 100, py = 50\<rparr>
   \<and> screenToDocument \<lparr>scale = 1, vx = 20, vy = 30\<rparr> \<lparr>px = 120, py = 80\<rparr> = \<lparr>px = 100, py = 50\<rparr>"
proof -
  have h: "scale \<lparr>scale = 1, vx = 20, vy = 30\<rparr> \<noteq> 0"
    by simp
  have w: "handleWheel (-1) 120 80 \<lparr>scale = 1, vx = 20, vy = 30\<rparr>
      = \<lparr>scale = 11 / 10, vx = 10, vy = 25\<rparr>"
    by (simp add: handleWheel_def Let_def)
  have d: "screenToDocument \<lparr>scale = 1, vx = 20, vy = 30\<rparr> \<lparr>px = 120, py = 80\<rparr>
      = \<lparr>px = 100, py = 50\<rparr>"
    by (simp add: screenToDocument_def)
  note T = zoom_keeps_cursor_point [OF h, of "-1" 120 80 ZoomIn 800 600, unfolded Let_def]
  from T have "screenToDocument (handleWheel (-1) 120 80 \<lparr>scale = 1, vx = 20, vy = 30\<rparr>)
        \<lparr>px = 120, py = 80\<rparr>
      = screenToDocument \<lparr>scale = 1, vx = 20, vy = 30\<rparr> \<lparr>px = 120, py = 80\<rparr>"
    by blast
  then show ?thesis
    using h w d by simp
qed

section \<open>Polygon centroid\<close>

subsection \<open>Rounding to a double\<close>











subsection \<open>Polygons with small integer coordinates\<close>















subsection \<open>Polygons on the canvas\<close>












subsection \<open>Collinear points\<close>






end
